theory Spec2Isabelle
  imports Complex_Main
begin

section \<open>The PBFT round engine of \<open>scripts/pbft-runner.js\<close>\<close>

text \<open>
  The development embeds the classes \<open>PBFTValidator\<close> and \<open>PBFTConsensus\<close> of
  \<open>scripts/pbft-runner.js\<close> together with the module-level \<open>measurements\<close> object
  they write to.

  Everything the JavaScript reads from outside is an explicit input:
  \<^item> \<open>Math.random()\<close> is the stream \<open>random\<close>; the world counts the calls made so far;
  \<open>random cfg k\<close> is the value the \<open>k\<close>-th call returns;
  \<^item> \<open>Date.now()\<close> is the field \<open>now\<close> (milliseconds); only \<open>sleep\<close> lets time pass, and
  the \<open>k\<close>-th \<open>sleep(ms)\<close> of a run takes \<open>ms + latency cfg k\<close> milliseconds;
  \<^item> the module constants are fields of the record \<open>env\<close>, so that claims about other
  durations and probabilities than the ones of the file can be stated; \<open>defaults\<close> holds
  the values of the file.

  Counters and times are JavaScript numbers that only ever hold small non-negative
  integers here; they are modelled as unbounded naturals. The fault bound \<open>f\<close> is an
  integer, since \<open>Math.floor((0 - 1) / 3)\<close> is \<open>-1\<close>. Lines written with \<open>console.log\<close>
  are left out; lines written with \<open>console.error\<close> are kept in \<open>stderr\<close>.
\<close>

subsection \<open>Constants and inputs\<close>

datatype failure = Crash | Malicious | Delayed

definition BYZANTINE_FAILURE_TYPES :: "failure list" where
  "BYZANTINE_FAILURE_TYPES = [Crash, Malicious, Delayed]"

record env =
  PRE_PREPARE_PHASE_TIME :: nat
  PREPARE_PHASE_TIME :: nat
  COMMIT_PHASE_TIME :: nat
  VIEW_CHANGE_TIMEOUT :: nat
  BYZANTINE_VALIDATOR_COUNT :: nat
  BYZANTINE_FAILURE_PROBABILITY :: rat
  random :: "nat \<Rightarrow> rat"
  latency :: "nat \<Rightarrow> nat"

definition defaults :: "(nat \<Rightarrow> rat) \<Rightarrow> (nat \<Rightarrow> nat) \<Rightarrow> env" where
  "defaults rnd lat =
     \<lparr>PRE_PREPARE_PHASE_TIME = 200, PREPARE_PHASE_TIME = 300, COMMIT_PHASE_TIME = 300,
      VIEW_CHANGE_TIMEOUT = 2000, BYZANTINE_VALIDATOR_COUNT = 1,
      BYZANTINE_FAILURE_PROBABILITY = 3 / 10, random = rnd, latency = lat\<rparr>"

text \<open>What \<open>Math.random\<close> promises: every value lies in \<open>[0, 1)\<close>.\<close>

definition random_ok :: "env \<Rightarrow> bool" where
  "random_ok cfg = (\<forall>k. 0 \<le> random cfg k \<and> random cfg k < 1)"

subsection \<open>Data\<close>

record PBFTValidator =
  address :: string
  index :: nat
  isByzantine :: bool
  byzantineType :: "failure option"
  preparesSent :: nat
  preparesReceived :: nat
  commitsSent :: nat
  commitsReceived :: nat
  blocksProposed :: nat
  viewChangesSent :: nat
  viewChangesReceived :: nat
  failures :: nat
  lastActive :: nat

record ByzantineEvent =
  be_timestamp :: nat
  be_validator :: string
  be_validatorIndex :: nat
  be_blockHeight :: nat
  be_view :: nat
  be_phase :: string
  be_failureType :: failure

record NetworkMessages =
  nm_timestamp :: nat
  nm_blockHeight :: nat
  nm_view :: nat
  nm_phase :: string
  nm_messageCount :: nat
  nm_messageSize :: nat
  nm_totalBytes :: nat

record PhaseRecord =
  ph_timestamp :: nat
  ph_blockHeight :: nat
  ph_view :: nat
  ph_phase :: string
  ph_duration :: nat
  ph_messageCount :: nat
  ph_participantCount :: "nat option"
  ph_byzantineCount :: nat

record ViewChangeRecord =
  vc_timestamp :: nat
  vc_oldView :: nat
  vc_newView :: nat
  vc_reason :: string
  vc_duration :: nat
  vc_messageCount :: nat
  vc_newPrimary :: string

record PhaseTimings =
  prePrepare :: nat
  prepare :: nat
  commit :: nat

text \<open>
  The object \<open>runConsensus\<close> returns. A key the object does not have is \<open>None\<close>.
\<close>

record ConsensusResult =
  success :: bool
  r_blockHeight :: nat
  r_view :: nat
  r_primary :: "string option"
  r_phaseTimings :: "PhaseTimings option"
  r_totalTime :: "nat option"
  r_txHash :: "string option"
  r_error :: "string option"
  r_timestamp :: nat

record ValidatorState =
  vs_address :: string
  vs_index :: nat
  vs_isByzantine :: bool
  vs_byzantineType :: "failure option"
  vs_preparesSent :: nat
  vs_preparesReceived :: nat
  vs_commitsSent :: nat
  vs_commitsReceived :: nat
  vs_blocksProposed :: nat
  vs_failures :: nat

record ConsensusState =
  cs_timestamp :: nat
  cs_eventType :: string
  cs_blockHeight :: nat
  cs_view :: nat
  cs_primary :: "string option"
  cs_f :: int
  cs_viewChangeInProgress :: bool
  cs_validatorStates :: "ValidatorState list"
  cs_result :: "ConsensusResult option"

text \<open>
  The mutable state of a run: the fields of the \<open>PBFTConsensus\<close> instance, the lists
  of the \<open>measurements\<close> object the class appends to, and the runtime (clock, number of
  \<open>Math.random\<close> and \<open>sleep\<close> calls made, error output).
\<close>

record world =
  validators :: "PBFTValidator list"
  currentView :: nat
  f :: int
  blockHeight :: nat
  viewChangeInProgress :: bool
  lastViewChangeTime :: nat
  byzantineEvents :: "ByzantineEvent list"
  networkMessages :: "NetworkMessages list"
  consensusPhases :: "PhaseRecord list"
  viewChanges :: "ViewChangeRecord list"
  consensusState :: "ConsensusState list"
  now :: nat
  randomCalls :: nat
  sleepCalls :: nat
  stderr :: "string list"

datatype error = Error string | TypeError string

fun message :: "error \<Rightarrow> string" where
  "message (Error m) = m"
| "message (TypeError m) = m"

subsection \<open>Runtime\<close>

definition sleep :: "env \<Rightarrow> nat \<Rightarrow> world \<Rightarrow> world" where
  "sleep cfg ms s = s\<lparr>now := now s + ms + latency cfg (sleepCalls s), sleepCalls := sleepCalls s + 1\<rparr>"

definition console_error :: "string \<Rightarrow> world \<Rightarrow> world" where
  "console_error line s = s\<lparr>stderr := stderr s @ [line]\<rparr>"

text \<open>Numbers inside template strings.\<close>

definition digit :: "nat \<Rightarrow> char" where
  "digit d = ''0123456789'' ! d"

fun decimal :: "nat \<Rightarrow> string" where
  "decimal n = (if n < 10 then [digit n] else decimal (n div 10) @ [digit (n mod 10)])"

declare decimal.simps [simp del]

definition numeral_text :: "int \<Rightarrow> string" where
  "numeral_text i = (if i < 0 then ''-'' @ decimal (nat (- i)) else decimal (nat i))"

subsection \<open>PBFTValidator\<close>

text \<open>
  \<open>new PBFTValidator(account, index, isByzantine)\<close>. The signer object is represented by
  its address. A Byzantine validator draws its kind with one call of \<open>Math.random\<close>; an
  index outside the array reads \<open>undefined\<close>, which is \<open>None\<close> like \<open>null\<close>.
\<close>

definition new_PBFTValidator :: "env \<Rightarrow> string \<Rightarrow> nat \<Rightarrow> bool \<Rightarrow> world \<Rightarrow> PBFTValidator \<times> world" where
  "new_PBFTValidator cfg account i byz s =
     (let (ty, s1) =
            (if byz then
               (let k = \<lfloor>random cfg (randomCalls s) * of_nat (length BYZANTINE_FAILURE_TYPES)\<rfloor>
                in if 0 \<le> k \<and> k < int (length BYZANTINE_FAILURE_TYPES)
                   then Some (BYZANTINE_FAILURE_TYPES ! nat k) else None,
                s\<lparr>randomCalls := randomCalls s + 1\<rparr>)
             else (None, s))
      in (\<lparr>address = account, index = i, isByzantine = byz, byzantineType = ty,
           preparesSent = 0, preparesReceived = 0, commitsSent = 0, commitsReceived = 0,
           blocksProposed = 0, viewChangesSent = 0, viewChangesReceived = 0, failures = 0,
           lastActive = now s1\<rparr>, s1))"

text \<open>
  \<open>exhibitsByzantineFailure\<close> of the validator at position \<open>i\<close>. The JavaScript returns
  \<open>false\<close> or the validator's \<open>byzantineType\<close>; every falsy value is \<open>None\<close>.
\<close>

definition exhibitsByzantineFailure :: "env \<Rightarrow> nat \<Rightarrow> world \<Rightarrow> failure option \<times> world" where
  "exhibitsByzantineFailure cfg i s =
     (let v = validators s ! i in
      if \<not> isByzantine v then (None, s)
      else
        let failsNow = random cfg (randomCalls s) < BYZANTINE_FAILURE_PROBABILITY cfg;
            s1 = s\<lparr>randomCalls := randomCalls s + 1\<rparr>
        in if failsNow
           then (byzantineType v, s1\<lparr>validators := (validators s1)[i := v\<lparr>failures := failures v + 1\<rparr>]\<rparr>)
           else (None, s1))"

definition recordPrepare :: "nat \<Rightarrow> bool \<Rightarrow> world \<Rightarrow> world" where
  "recordPrepare i isIncoming s =
     (let v = validators s ! i;
          v1 = (if isIncoming then v\<lparr>preparesReceived := preparesReceived v + 1\<rparr>
                else v\<lparr>preparesSent := preparesSent v + 1\<rparr>)
      in s\<lparr>validators := (validators s)[i := v1\<lparr>lastActive := now s\<rparr>]\<rparr>)"

definition recordCommit :: "nat \<Rightarrow> bool \<Rightarrow> world \<Rightarrow> world" where
  "recordCommit i isIncoming s =
     (let v = validators s ! i;
          v1 = (if isIncoming then v\<lparr>commitsReceived := commitsReceived v + 1\<rparr>
                else v\<lparr>commitsSent := commitsSent v + 1\<rparr>)
      in s\<lparr>validators := (validators s)[i := v1\<lparr>lastActive := now s\<rparr>]\<rparr>)"

definition recordProposal :: "nat \<Rightarrow> world \<Rightarrow> world" where
  "recordProposal i s =
     (let v = validators s ! i
      in s\<lparr>validators := (validators s)[i := v\<lparr>blocksProposed := blocksProposed v + 1, lastActive := now s\<rparr>]\<rparr>)"

definition recordViewChange :: "nat \<Rightarrow> bool \<Rightarrow> world \<Rightarrow> world" where
  "recordViewChange i isIncoming s =
     (let v = validators s ! i;
          v1 = (if isIncoming then v\<lparr>viewChangesReceived := viewChangesReceived v + 1\<rparr>
                else v\<lparr>viewChangesSent := viewChangesSent v + 1\<rparr>)
      in s\<lparr>validators := (validators s)[i := v1\<lparr>lastActive := now s\<rparr>]\<rparr>)"

subsection \<open>PBFTConsensus: bookkeeping\<close>

text \<open>
  \<open>getPrimary\<close> reads \<open>validators[currentView % validators.length]\<close>. With no validator the
  index is \<open>NaN\<close> and the read gives \<open>undefined\<close>. A validator object is referred to by its
  position in \<open>validators\<close>, so \<open>primaryIndex\<close> stands for the object \<open>getPrimary\<close> returns
  wherever the code mutates it or compares it by identity.
\<close>

definition primaryIndex :: "world \<Rightarrow> nat" where
  "primaryIndex s = currentView s mod length (validators s)"

definition getPrimary :: "world \<Rightarrow> PBFTValidator option" where
  "getPrimary s =
     (if primaryIndex s < length (validators s) then Some (validators s ! primaryIndex s) else None)"

definition recordByzantineEvent :: "nat \<Rightarrow> string \<Rightarrow> failure \<Rightarrow> world \<Rightarrow> world" where
  "recordByzantineEvent i phase failureType s =
     s\<lparr>byzantineEvents := byzantineEvents s @
        [\<lparr>be_timestamp = now s, be_validator = address (validators s ! i),
          be_validatorIndex = index (validators s ! i), be_blockHeight = blockHeight s,
          be_view = currentView s, be_phase = phase, be_failureType = failureType\<rparr>]\<rparr>"

definition recordNetworkMessages :: "string \<Rightarrow> nat \<Rightarrow> nat \<Rightarrow> world \<Rightarrow> world" where
  "recordNetworkMessages phase messageCount messageSize s =
     s\<lparr>networkMessages := networkMessages s @
        [\<lparr>nm_timestamp = now s, nm_blockHeight = blockHeight s, nm_view = currentView s,
          nm_phase = phase, nm_messageCount = messageCount, nm_messageSize = messageSize,
          nm_totalBytes = messageCount * messageSize\<rparr>]\<rparr>"

definition recordPhaseCompletion :: "string \<Rightarrow> nat \<Rightarrow> nat \<Rightarrow> nat option \<Rightarrow> nat \<Rightarrow> world \<Rightarrow> world" where
  "recordPhaseCompletion phase duration messageCount participantCount byzantineCount s =
     s\<lparr>consensusPhases := consensusPhases s @
        [\<lparr>ph_timestamp = now s, ph_blockHeight = blockHeight s, ph_view = currentView s,
          ph_phase = phase, ph_duration = duration, ph_messageCount = messageCount,
          ph_participantCount = participantCount, ph_byzantineCount = byzantineCount\<rparr>]\<rparr>"

definition validatorState :: "PBFTValidator \<Rightarrow> ValidatorState" where
  "validatorState v =
     \<lparr>vs_address = address v, vs_index = index v, vs_isByzantine = isByzantine v,
      vs_byzantineType = byzantineType v, vs_preparesSent = preparesSent v,
      vs_preparesReceived = preparesReceived v, vs_commitsSent = commitsSent v,
      vs_commitsReceived = commitsReceived v, vs_blocksProposed = blocksProposed v,
      vs_failures = failures v\<rparr>"

definition recordConsensusState :: "string \<Rightarrow> ConsensusResult option \<Rightarrow> world \<Rightarrow> world" where
  "recordConsensusState eventType result s =
     s\<lparr>consensusState := consensusState s @
        [\<lparr>cs_timestamp = now s, cs_eventType = eventType, cs_blockHeight = blockHeight s,
          cs_view = currentView s, cs_primary = map_option address (getPrimary s), cs_f = f s,
          cs_viewChangeInProgress = viewChangeInProgress s,
          cs_validatorStates = map validatorState (validators s), cs_result = result\<rparr>]\<rparr>"

subsection \<open>PBFTConsensus: construction\<close>

text \<open>
  The \<open>while\<close> loop of \<open>setupValidators\<close> draws indices until the set holds
  \<open>BYZANTINE_VALIDATOR_COUNT\<close> of them; it need not end. The set is the list of its
  elements in insertion order; the second component counts the \<open>Math.random\<close> calls.
\<close>

partial_function (option) drawByzantineIndices :: "env \<Rightarrow> nat \<Rightarrow> int list \<Rightarrow> nat \<Rightarrow> (int list \<times> nat) option" where
  "drawByzantineIndices cfg n byzantineIndices calls =
     (if length byzantineIndices < BYZANTINE_VALIDATOR_COUNT cfg
      then drawByzantineIndices cfg n
             (if \<lfloor>random cfg calls * of_nat n\<rfloor> \<in> set byzantineIndices then byzantineIndices
              else byzantineIndices @ [\<lfloor>random cfg calls * of_nat n\<rfloor>])
             (calls + 1)
      else Some (byzantineIndices, calls))"

declare drawByzantineIndices.simps [code]

fun mapValidators :: "env \<Rightarrow> int list \<Rightarrow> string list \<Rightarrow> nat \<Rightarrow> world \<Rightarrow> PBFTValidator list \<times> world" where
  "mapValidators cfg byzantineIndices [] i s = ([], s)"
| "mapValidators cfg byzantineIndices (account # accounts) i s =
     (case new_PBFTValidator cfg account i (int i \<in> set byzantineIndices) s of
        (v, s1) \<Rightarrow>
          (case mapValidators cfg byzantineIndices accounts (i + 1) s1 of
             (vs, s2) \<Rightarrow> (v # vs, s2)))"

definition setupValidators :: "env \<Rightarrow> string list \<Rightarrow> world \<Rightarrow> (PBFTValidator list \<times> world) option" where
  "setupValidators cfg accounts s =
     (case drawByzantineIndices cfg (length accounts) [] (randomCalls s) of
        None \<Rightarrow> None
      | Some (byzantineIndices, calls) \<Rightarrow>
          Some (mapValidators cfg byzantineIndices accounts 0 (s\<lparr>randomCalls := calls\<rparr>)))"

text \<open>
  \<open>new PBFTConsensus(validatorAccounts)\<close>, run in a world that holds the measurements and
  the runtime; the fields of the instance are set here. \<open>None\<close>: the constructor does not
  return.
\<close>

definition new_PBFTConsensus :: "env \<Rightarrow> string list \<Rightarrow> world \<Rightarrow> world option" where
  "new_PBFTConsensus cfg validatorAccounts s =
     (case setupValidators cfg validatorAccounts s of
        None \<Rightarrow> None
      | Some (vs, s1) \<Rightarrow>
          Some (recordConsensusState ''initialization'' None
                  (s1\<lparr>validators := vs, currentView := 0, f := (int (length vs) - 1) div 3,
                      blockHeight := 0, viewChangeInProgress := False, lastViewChangeTime := 0\<rparr>)))"

text \<open>The module before the constructor runs: empty measurements, the clock at \<open>t\<close>.\<close>

definition module_start :: "nat \<Rightarrow> world" where
  "module_start t =
     \<lparr>validators = [], currentView = 0, f = 0, blockHeight = 0, viewChangeInProgress = False,
      lastViewChangeTime = 0, byzantineEvents = [], networkMessages = [], consensusPhases = [],
      viewChanges = [], consensusState = [], now = t, randomCalls = 0, sleepCalls = 0,
      stderr = []\<rparr>"

subsection \<open>PBFTConsensus: the three phases\<close>

text \<open>
  A phase returns the duration it measured, or the error it threw, together with the
  world it leaves behind: what a phase changed before it threw stays changed.
\<close>

definition runPrePreparePhase :: "env \<Rightarrow> world \<Rightarrow> (error + nat) \<times> world" where
  "runPrePreparePhase cfg s =
     (let phaseStartTime = now s in
      case getPrimary s of
        None \<Rightarrow> (Inl (TypeError ''Cannot read properties of undefined (reading 'address')''), s)
      | Some _ \<Rightarrow>
          (case exhibitsByzantineFailure cfg (primaryIndex s) s of
             (byzantineFailure, s1) \<Rightarrow>
               (if byzantineFailure = Some Crash
                then (Inl (Error ''Primary crashed during pre-prepare phase''),
                      recordByzantineEvent (primaryIndex s) ''pre-prepare'' Crash s1)
                else
                  let s2 = (case byzantineFailure of
                              None \<Rightarrow> s1
                            | Some k \<Rightarrow>
                                let s1' = recordByzantineEvent (primaryIndex s) ''pre-prepare'' k s1
                                in if k = Delayed then sleep cfg (VIEW_CHANGE_TIMEOUT cfg div 2) s1'
                                   else s1');
                      s3 = recordProposal (primaryIndex s) s2;
                      messagesSent = length (validators s3);
                      s4 = recordNetworkMessages ''pre-prepare'' messagesSent 1024 s3;
                      s5 = sleep cfg (PRE_PREPARE_PHASE_TIME cfg) s4;
                      phaseDuration = now s5 - phaseStartTime
                  in (Inr phaseDuration,
                      recordPhaseCompletion ''pre-prepare'' phaseDuration messagesSent None 0 s5))))"

text \<open>
  One turn of the \<open>for\<close> loop of \<open>runPreparePhase\<close>, for the validator at position \<open>i\<close>;
  the accumulator holds \<open>prepareCount\<close>, \<open>byzantineCount\<close> and the world.
\<close>

definition prepareTurn :: "env \<Rightarrow> nat \<times> nat \<times> world \<Rightarrow> nat \<Rightarrow> nat \<times> nat \<times> world" where
  "prepareTurn cfg acc i =
     (case acc of (prepareCount, byzantineCount, s) \<Rightarrow>
        if i = primaryIndex s then acc
        else
          (case exhibitsByzantineFailure cfg i s of
             (None, s1) \<Rightarrow> (prepareCount + 1, byzantineCount, recordPrepare i False s1)
           | (Some k, s1) \<Rightarrow>
               let s2 = recordByzantineEvent i ''prepare'' k s1
               in if k = Crash then (prepareCount, byzantineCount + 1, s2)
                  else (prepareCount + 1, byzantineCount + 1, recordPrepare i False s2)))"

definition prepareLoop :: "env \<Rightarrow> world \<Rightarrow> nat \<times> nat \<times> world" where
  "prepareLoop cfg s = foldl (prepareTurn cfg) (0, 0, s) [0..<length (validators s)]"

definition runPreparePhase :: "env \<Rightarrow> world \<Rightarrow> (error + nat) \<times> world" where
  "runPreparePhase cfg s =
     (let phaseStartTime = now s in
      case prepareLoop cfg s of
        (prepareCount, byzantineCount, s1) \<Rightarrow>
          let s2 = sleep cfg (PREPARE_PHASE_TIME cfg) s1;
              requiredPrepares = 2 * f s2 + 1
          in if int prepareCount < requiredPrepares
             then (Inl (Error (''Insufficient prepare messages: '' @ decimal prepareCount
                                @ ''/'' @ numeral_text requiredPrepares)), s2)
             else
               let messagesSent = prepareCount * length (validators s2);
                   s3 = recordNetworkMessages ''prepare'' messagesSent 512 s2;
                   phaseDuration = now s3 - phaseStartTime
               in (Inr phaseDuration,
                   recordPhaseCompletion ''prepare'' phaseDuration messagesSent
                     (Some prepareCount) byzantineCount s3))"

definition commitTurn :: "env \<Rightarrow> nat \<times> nat \<times> world \<Rightarrow> nat \<Rightarrow> nat \<times> nat \<times> world" where
  "commitTurn cfg acc i =
     (case acc of (commitCount, byzantineCount, s) \<Rightarrow>
        (case exhibitsByzantineFailure cfg i s of
           (None, s1) \<Rightarrow> (commitCount + 1, byzantineCount, recordCommit i False s1)
         | (Some k, s1) \<Rightarrow>
             let s2 = recordByzantineEvent i ''commit'' k s1
             in if k = Crash then (commitCount, byzantineCount + 1, s2)
                else (commitCount + 1, byzantineCount + 1, recordCommit i False s2)))"

definition commitLoop :: "env \<Rightarrow> world \<Rightarrow> nat \<times> nat \<times> world" where
  "commitLoop cfg s = foldl (commitTurn cfg) (0, 0, s) [0..<length (validators s)]"

definition runCommitPhase :: "env \<Rightarrow> world \<Rightarrow> (error + nat) \<times> world" where
  "runCommitPhase cfg s =
     (let phaseStartTime = now s in
      case commitLoop cfg s of
        (commitCount, byzantineCount, s1) \<Rightarrow>
          let s2 = sleep cfg (COMMIT_PHASE_TIME cfg) s1;
              requiredCommits = 2 * f s2 + 1
          in if int commitCount < requiredCommits
             then (Inl (Error (''Insufficient commit messages: '' @ decimal commitCount
                                @ ''/'' @ numeral_text requiredCommits)), s2)
             else
               let messagesSent = commitCount * length (validators s2);
                   s3 = recordNetworkMessages ''commit'' messagesSent 512 s2;
                   phaseDuration = now s3 - phaseStartTime
               in (Inr phaseDuration,
                   recordPhaseCompletion ''commit'' phaseDuration messagesSent
                     (Some commitCount) byzantineCount s3))"

subsection \<open>PBFTConsensus: view change\<close>

definition viewChangeTurn :: "env \<Rightarrow> nat \<times> world \<Rightarrow> nat \<Rightarrow> nat \<times> world" where
  "viewChangeTurn cfg acc i =
     (case acc of (viewChangeMsgCount, s) \<Rightarrow>
        (case exhibitsByzantineFailure cfg i s of
           (byzantineFailure, s1) \<Rightarrow>
             if byzantineFailure = Some Crash then (viewChangeMsgCount, s1)
             else (viewChangeMsgCount + 1, recordViewChange i False s1)))"

definition viewChangeLoop :: "env \<Rightarrow> world \<Rightarrow> nat \<times> world" where
  "viewChangeLoop cfg s = foldl (viewChangeTurn cfg) (0, s) [0..<length (validators s)]"

text \<open>
  \<open>initiateViewChange(reason)\<close> returns the new view, or \<open>undefined\<close> (\<open>None\<close>) when a view
  change is in progress already. Reading the address of a primary that does not exist
  throws after the flag has been set.
\<close>

definition initiateViewChange :: "env \<Rightarrow> string \<Rightarrow> world \<Rightarrow> (error + nat option) \<times> world" where
  "initiateViewChange cfg reason s =
     (if viewChangeInProgress s then (Inr None, s)
      else
        let s1 = s\<lparr>viewChangeInProgress := True\<rparr>;
            viewChangeStartTime = now s1
        in (case getPrimary s1 of
              None \<Rightarrow> (Inl (TypeError ''Cannot read properties of undefined (reading 'address')''), s1)
            | Some _ \<Rightarrow>
                (let oldView = currentView s1;
                     s2 = s1\<lparr>currentView := currentView s1 + 1\<rparr>
                 in (case viewChangeLoop cfg s2 of
                       (viewChangeMsgCount, s3) \<Rightarrow>
                         (let s4 = sleep cfg (VIEW_CHANGE_TIMEOUT cfg) s3;
                              requiredViewChanges = 2 * f s4 + 1;
                              s5 = (if int viewChangeMsgCount < requiredViewChanges
                                    then console_error
                                           (''Insufficient view change messages: ''
                                            @ decimal viewChangeMsgCount @ ''/''
                                            @ numeral_text requiredViewChanges) s4
                                    else s4)
                          in (case getPrimary s5 of
                                None \<Rightarrow> (Inl (TypeError ''Cannot read properties of undefined (reading 'address')''), s5)
                              | Some newPrimary \<Rightarrow>
                                  (let viewChangeDuration = now s5 - viewChangeStartTime;
                                       s6 = s5\<lparr>viewChanges := viewChanges s5 @
                                              [\<lparr>vc_timestamp = now s5, vc_oldView = oldView,
                                                vc_newView = currentView s5, vc_reason = reason,
                                                vc_duration = viewChangeDuration,
                                                vc_messageCount =
                                                  viewChangeMsgCount * length (validators s5),
                                                vc_newPrimary = address newPrimary\<rparr>]\<rparr>;
                                       s7 = s6\<lparr>viewChangeInProgress := False,
                                               lastViewChangeTime := now s6\<rparr>;
                                       s8 = recordConsensusState ''view_change'' None s7
                                   in (Inr (Some (currentView s8)), s8))))))))"

subsection \<open>PBFTConsensus: a round\<close>

text \<open>
  The body of the \<open>try\<close> block: the three phases in order, stopped by the first throw.
\<close>

definition runPhases :: "env \<Rightarrow> world \<Rightarrow> (error + PhaseTimings) \<times> world" where
  "runPhases cfg s =
     (case runPrePreparePhase cfg s of
        (Inl e, s1) \<Rightarrow> (Inl e, s1)
      | (Inr t1, s1) \<Rightarrow>
          (case runPreparePhase cfg s1 of
             (Inl e, s2) \<Rightarrow> (Inl e, s2)
           | (Inr t2, s2) \<Rightarrow>
               (case runCommitPhase cfg s2 of
                  (Inl e, s3) \<Rightarrow> (Inl e, s3)
                | (Inr t3, s3) \<Rightarrow> (Inr \<lparr>prePrepare = t1, prepare = t2, commit = t3\<rparr>, s3))))"

text \<open>
  \<open>runConsensus(txHash, receipt)\<close>. The receipt is stored in a local object and never
  read. The first \<open>console.log\<close> reads the primary's address outside the \<open>try\<close> block, so
  with no validator the call throws; so does a throw of \<open>initiateViewChange\<close> inside the
  \<open>catch\<close> block.
\<close>

definition runConsensus :: "env \<Rightarrow> string \<Rightarrow> 'r \<Rightarrow> world \<Rightarrow> (error + ConsensusResult) \<times> world" where
  "runConsensus cfg txHash receipt s0 =
     (let s = s0\<lparr>blockHeight := blockHeight s0 + 1\<rparr> in
      case getPrimary s of
        None \<Rightarrow> (Inl (TypeError ''Cannot read properties of undefined (reading 'address')''), s)
      | Some _ \<Rightarrow>
          (case runPhases cfg s of
             (Inr phaseTimings, s1) \<Rightarrow>
               (let totalTime = prePrepare phaseTimings + prepare phaseTimings + commit phaseTimings;
                    consensusResult =
                      \<lparr>success = True, r_blockHeight = blockHeight s1, r_view = currentView s1,
                       r_primary = map_option address (getPrimary s1),
                       r_phaseTimings = Some phaseTimings, r_totalTime = Some totalTime,
                       r_txHash = Some txHash, r_error = None, r_timestamp = now s1\<rparr>
                in (Inr consensusResult,
                    recordConsensusState ''consensus_complete'' (Some consensusResult) s1))
           | (Inl err, s1) \<Rightarrow>
               (let s2 = console_error (''PBFT consensus failed: '' @ message err) s1
                in (case (if \<not> viewChangeInProgress s2
                          then initiateViewChange cfg (message err) s2
                          else (Inr None, s2)) of
                      (Inl e, s3) \<Rightarrow> (Inl e, s3)
                    | (Inr _, s3) \<Rightarrow>
                        (let consensusResult =
                               \<lparr>success = False, r_blockHeight = blockHeight s3,
                                r_view = currentView s3, r_primary = None, r_phaseTimings = None,
                                r_totalTime = None, r_txHash = None, r_error = Some (message err),
                                r_timestamp = now s3\<rparr>
                         in (Inr consensusResult,
                             recordConsensusState ''consensus_complete'' (Some consensusResult) s3))))))"

text \<open>
  The driver calls \<open>runConsensus\<close> once per transaction, one call after the other; a
  throw ends the run.
\<close>

fun runRounds :: "env \<Rightarrow> (string \<times> 'r) list \<Rightarrow> world \<Rightarrow> (error + ConsensusResult list) \<times> world" where
  "runRounds cfg [] s = (Inr [], s)"
| "runRounds cfg ((txHash, receipt) # txs) s =
     (case runConsensus cfg txHash receipt s of
        (Inl e, s1) \<Rightarrow> (Inl e, s1)
      | (Inr r, s1) \<Rightarrow>
          (case runRounds cfg txs s1 of
             (Inl e, s2) \<Rightarrow> (Inl e, s2)
           | (Inr rs, s2) \<Rightarrow> (Inr (r # rs), s2)))"

section \<open>Vocabulary of the proofs\<close>

text \<open>
  The parts of a validator no operation of the engine writes: its identity and its
  Byzantine profile.
\<close>

definition static :: "PBFTValidator \<Rightarrow> string \<times> nat \<times> bool \<times> failure option" where
  "static v = (address v, index v, isByzantine v, byzantineType v)"

text \<open>The failure counter of a validator that is not Byzantine.\<close>

definition honest :: "PBFTValidator \<Rightarrow> nat option" where
  "honest v = (if isByzantine v then None else Some (failures v))"

text \<open>The counters of the three phases.\<close>

definition ballots :: "PBFTValidator \<Rightarrow> nat \<times> nat \<times> nat \<times> nat \<times> nat" where
  "ballots v = (blocksProposed v, preparesSent v, preparesReceived v, commitsSent v, commitsReceived v)"

text \<open>
  \<open>steady\<close>: what no phase changes. \<open>quiet\<close>: what no loop over the validators changes.
  \<open>calm\<close>: what the loop of the view change leaves as it is.
\<close>

definition steady :: "world \<Rightarrow> world \<Rightarrow> bool" where
  "steady s s' \<longleftrightarrow>
     map static (validators s') = map static (validators s) \<and>
     map honest (validators s') = map honest (validators s) \<and>
     currentView s' = currentView s \<and> f s' = f s \<and> blockHeight s' = blockHeight s \<and>
     viewChangeInProgress s' = viewChangeInProgress s \<and> viewChanges s' = viewChanges s \<and>
     stderr s' = stderr s \<and> lastViewChangeTime s' = lastViewChangeTime s \<and>
     consensusState s' = consensusState s"

definition quiet :: "world \<Rightarrow> world \<Rightarrow> bool" where
  "quiet s s' \<longleftrightarrow>
     steady s s' \<and> now s' = now s \<and> sleepCalls s' = sleepCalls s \<and>
     networkMessages s' = networkMessages s \<and> consensusPhases s' = consensusPhases s"

definition calm :: "world \<Rightarrow> world \<Rightarrow> bool" where
  "calm s s' \<longleftrightarrow> quiet s s' \<and> byzantineEvents s' = byzantineEvents s \<and>
     map ballots (validators s') = map ballots (validators s)"

text \<open>No call of \<open>Math.random\<close> returns a value below the failure probability.\<close>

definition no_faults :: "env \<Rightarrow> bool" where
  "no_faults cfg \<longleftrightarrow> (\<forall>k. \<not> random cfg k < BYZANTINE_FAILURE_PROBABILITY cfg)"

text \<open>
  An event is attributed to a validator of the world when it carries the address, the
  index and the kind of a Byzantine validator of the registry.
\<close>

definition attributed :: "world \<Rightarrow> ByzantineEvent \<Rightarrow> bool" where
  "attributed s e \<longleftrightarrow>
     (be_validator e, be_validatorIndex e, True, Some (be_failureType e)) \<in> set (map static (validators s))"

text \<open>
  \<open>evolves\<close>: what holds between the world before and the world after any number of
  rounds.
\<close>

definition evolves :: "world \<Rightarrow> world \<Rightarrow> bool" where
  "evolves s s' \<longleftrightarrow>
     map static (validators s') = map static (validators s) \<and>
     map honest (validators s') = map honest (validators s) \<and>
     f s' = f s \<and> currentView s \<le> currentView s' \<and> blockHeight s \<le> blockHeight s' \<and>
     (viewChangeInProgress s' \<longrightarrow> viewChangeInProgress s) \<and>
     (\<exists>new. byzantineEvents s' = byzantineEvents s @ new \<and> (\<forall>e\<in>set new. attributed s e)) \<and>
     (\<exists>vcs. viewChanges s' = viewChanges s @ vcs \<and> (\<forall>r\<in>set vcs. vc_newView r = vc_oldView r + 1))"

definition crashes :: "ByzantineEvent list \<Rightarrow> nat" where
  "crashes evs = length (filter (\<lambda>e. be_failureType e = Crash) evs)"

text \<open>The two objects \<open>runConsensus\<close> builds, as functions of the world they are built in.\<close>

definition successResult :: "string \<Rightarrow> PhaseTimings \<Rightarrow> world \<Rightarrow> ConsensusResult" where
  "successResult txHash pt s =
     \<lparr>success = True, r_blockHeight = blockHeight s, r_view = currentView s,
      r_primary = map_option address (getPrimary s), r_phaseTimings = Some pt,
      r_totalTime = Some (prePrepare pt + prepare pt + commit pt), r_txHash = Some txHash,
      r_error = None, r_timestamp = now s\<rparr>"

definition failureResult :: "error \<Rightarrow> world \<Rightarrow> ConsensusResult" where
  "failureResult err s =
     \<lparr>success = False, r_blockHeight = blockHeight s, r_view = currentView s, r_primary = None,
      r_phaseTimings = None, r_totalTime = None, r_txHash = None, r_error = Some (message err),
      r_timestamp = now s\<rparr>"

definition prepareError :: "nat \<Rightarrow> int \<Rightarrow> error" where
  "prepareError c req =
     Error (''Insufficient prepare messages: '' @ decimal c @ ''/'' @ numeral_text req)"

definition commitError :: "nat \<Rightarrow> int \<Rightarrow> error" where
  "commitError c req =
     Error (''Insufficient commit messages: '' @ decimal c @ ''/'' @ numeral_text req)"

subsection \<open>Worlds to run the engine in\<close>

text \<open>
  A registry with one validator per entry of \<open>kinds\<close>, Byzantine where the entry names a
  kind, in the world the module starts in at time \<open>0\<close>; \<open>f\<close> as the constructor computes it.
\<close>

definition validatorOf :: "nat \<Rightarrow> failure option \<Rightarrow> PBFTValidator" where
  "validatorOf i kind =
     \<lparr>address = ''0x'' @ decimal i, index = i, isByzantine = (kind \<noteq> None),
      byzantineType = kind, preparesSent = 0, preparesReceived = 0, commitsSent = 0,
      commitsReceived = 0, blocksProposed = 0, viewChangesSent = 0, viewChangesReceived = 0,
      failures = 0, lastActive = 0\<rparr>"

definition worldOf :: "failure option list \<Rightarrow> world" where
  "worldOf kinds =
     (module_start 0)\<lparr>validators := map (\<lambda>i. validatorOf i (kinds ! i)) [0..<length kinds],
                      f := (int (length kinds) - 1) div 3\<rparr>"

section \<open>What the operations leave as it is\<close>

lemma steady_refl [simp]: "steady s s"
  by (simp add: steady_def)

lemma quiet_refl [simp]: "quiet s s"
  by (simp add: quiet_def)

lemma steady_trans: "steady s s1 \<Longrightarrow> steady s1 s2 \<Longrightarrow> steady s s2"
  by (simp add: steady_def)

lemma quiet_trans: "quiet s s1 \<Longrightarrow> quiet s1 s2 \<Longrightarrow> quiet s s2"
  by (auto simp: quiet_def intro: steady_trans)

lemma steady_length: "steady s s' \<Longrightarrow> length (validators s') = length (validators s)"
  unfolding steady_def by (metis length_map)

lemma steady_primaryIndex: "steady s s' \<Longrightarrow> primaryIndex s' = primaryIndex s"
  by (simp add: primaryIndex_def steady_length) (simp add: steady_def)

lemma map_update_same:
  "g v = g (vs ! i) \<Longrightarrow> map g (vs[i := v]) = map g vs"
  by (cases "i < length vs") (simp_all add: map_update list_update_same_conv list_update_beyond)

lemma quiet_exhibits: "quiet s t \<Longrightarrow> quiet s (snd (exhibitsByzantineFailure cfg i t))"
  by (simp add: exhibitsByzantineFailure_def quiet_def steady_def Let_def map_update_same static_def honest_def)

lemma quiet_recordPrepare: "quiet s t \<Longrightarrow> quiet s (recordPrepare i b t)"
  by (simp add: recordPrepare_def quiet_def steady_def Let_def map_update_same static_def honest_def)

lemma quiet_recordCommit: "quiet s t \<Longrightarrow> quiet s (recordCommit i b t)"
  by (simp add: recordCommit_def quiet_def steady_def Let_def map_update_same static_def honest_def)

lemma quiet_recordProposal: "quiet s t \<Longrightarrow> quiet s (recordProposal i t)"
  by (simp add: recordProposal_def quiet_def steady_def Let_def map_update_same static_def honest_def)

lemma quiet_recordViewChange: "quiet s t \<Longrightarrow> quiet s (recordViewChange i b t)"
  by (simp add: recordViewChange_def quiet_def steady_def Let_def map_update_same static_def honest_def)

lemma quiet_recordByzantineEvent: "quiet s t \<Longrightarrow> quiet s (recordByzantineEvent i ph k t)"
  by (simp add: recordByzantineEvent_def quiet_def steady_def)

lemma steady_recordNetworkMessages: "steady s t \<Longrightarrow> steady s (recordNetworkMessages ph m z t)"
  by (simp add: recordNetworkMessages_def steady_def)

lemma steady_recordPhaseCompletion: "steady s t \<Longrightarrow> steady s (recordPhaseCompletion ph d m pc bc t)"
  by (simp add: recordPhaseCompletion_def steady_def)

lemma steady_sleep: "steady s t \<Longrightarrow> steady s (sleep cfg ms t)"
  by (simp add: sleep_def steady_def)

lemmas quiet_ops = quiet_exhibits quiet_recordPrepare quiet_recordCommit quiet_recordProposal
  quiet_recordViewChange quiet_recordByzantineEvent

lemma events_frame [simp]:
  "byzantineEvents (recordPrepare i b t) = byzantineEvents t"
  "byzantineEvents (recordCommit i b t) = byzantineEvents t"
  "byzantineEvents (recordViewChange i b t) = byzantineEvents t"
  "byzantineEvents (recordProposal i t) = byzantineEvents t"
  "byzantineEvents (sleep cfg ms t) = byzantineEvents t"
  "byzantineEvents (console_error line t) = byzantineEvents t"
  "byzantineEvents (recordNetworkMessages ph m z t) = byzantineEvents t"
  "byzantineEvents (recordPhaseCompletion ph d m pc bc t) = byzantineEvents t"
  "byzantineEvents (recordConsensusState ev res t) = byzantineEvents t"
  by (simp_all add: recordPrepare_def recordCommit_def recordViewChange_def recordProposal_def
      sleep_def console_error_def recordNetworkMessages_def recordPhaseCompletion_def
      recordConsensusState_def Let_def)

lemma events_recordByzantineEvent:
  "byzantineEvents (recordByzantineEvent i ph k t) = byzantineEvents t @
     [\<lparr>be_timestamp = now t, be_validator = address (validators t ! i),
       be_validatorIndex = index (validators t ! i), be_blockHeight = blockHeight t,
       be_view = currentView t, be_phase = ph, be_failureType = k\<rparr>]"
  by (simp add: recordByzantineEvent_def)

subsection \<open>One call of the fault model\<close>

lemma exhibits_no_faults:
  "no_faults cfg \<Longrightarrow> fst (exhibitsByzantineFailure cfg i s) = None"
  by (simp add: exhibitsByzantineFailure_def no_faults_def Let_def)

lemma exhibits_cases:
  assumes "exhibitsByzantineFailure cfg i s = (r, s1)"
  shows "quiet s s1 \<and> byzantineEvents s1 = byzantineEvents s \<and>
         (r = None \<or> (isByzantine (validators s ! i) \<and> r = byzantineType (validators s ! i))) \<and>
         (no_faults cfg \<longrightarrow> r = None)"
proof -
  have "no_faults cfg \<longrightarrow> r = None" using exhibits_no_faults [of cfg i s] assms by simp
  moreover
  have "quiet s s1" using quiet_exhibits [of s s cfg i] assms by simp
  moreover have "byzantineEvents s1 = byzantineEvents s"
    using assms by (auto simp: exhibitsByzantineFailure_def Let_def split: if_splits)
  moreover have "r = None \<or> (isByzantine (validators s ! i) \<and> r = byzantineType (validators s ! i))"
    using assms by (auto simp: exhibitsByzantineFailure_def Let_def split: if_splits)
  ultimately show ?thesis by simp
qed

lemma attributed_steady: "steady s s' \<Longrightarrow> attributed s' e = attributed s e"
  by (simp add: attributed_def steady_def)

section \<open>The loops over the validators\<close>

lemma prepareTurn_step:
  assumes "prepareTurn cfg (c, b, s) i = (c1, b1, s1)" and "i < length (validators s)"
  shows "\<exists>new. byzantineEvents s1 = byzantineEvents s @ new \<and>
           c1 + crashes new = c + (if i = primaryIndex s then 0 else 1) \<and>
           b1 = b + length new \<and>
           (\<forall>e\<in>set new. be_phase e = ''prepare'' \<and> be_blockHeight e = blockHeight s \<and> attributed s e) \<and>
           (no_faults cfg \<longrightarrow> new = []) \<and>
           quiet s s1"
proof (cases "i = primaryIndex s")
  case True
  then show ?thesis using assms by (simp add: prepareTurn_def crashes_def)
next
  case False
  obtain r t where e: "exhibitsByzantineFailure cfg i s = (r, t)"
    by (cases "exhibitsByzantineFailure cfg i s")
  note ex = exhibits_cases [OF e]
  show ?thesis
  proof (cases r)
    case None
    then show ?thesis using assms False e ex
      by (auto simp: prepareTurn_def crashes_def quiet_ops)
  next
    case (Some k)
    have st: "static (validators t ! i) = static (validators s ! i)"
      using ex assms(2) unfolding quiet_def steady_def by (metis nth_map length_map)
    have att: "attributed s \<lparr>be_timestamp = now t, be_validator = address (validators t ! i),
          be_validatorIndex = index (validators t ! i), be_blockHeight = blockHeight t,
          be_view = currentView t, be_phase = ''prepare'', be_failureType = k\<rparr>"
      using ex Some st assms(2) unfolding attributed_def static_def
      by (auto simp: in_set_conv_nth intro!: exI [of _ i])
    have bh: "blockHeight t = blockHeight s" using ex by (simp add: quiet_def steady_def)
    show ?thesis using assms False e ex Some att bh
      by (auto simp: prepareTurn_def crashes_def quiet_ops events_recordByzantineEvent Let_def
          split: if_splits)
  qed
qed

lemma crashes_append [simp]: "crashes (xs @ ys) = crashes xs + crashes ys"
  by (simp add: crashes_def)

lemma quiet_steady: "quiet s s' \<Longrightarrow> steady s s'"
  by (simp add: quiet_def)

lemma prepare_fold:
  assumes "foldl (prepareTurn cfg) (c, b, s) xs = (c', b', s')"
    and "\<forall>i\<in>set xs. i < length (validators s)"
  shows "\<exists>new. byzantineEvents s' = byzantineEvents s @ new \<and>
           c' + crashes new = c + length (filter (\<lambda>i. i \<noteq> primaryIndex s) xs) \<and>
           b' = b + length new \<and>
           (\<forall>e\<in>set new. be_phase e = ''prepare'' \<and> be_blockHeight e = blockHeight s \<and> attributed s e) \<and>
           (no_faults cfg \<longrightarrow> new = []) \<and>
           quiet s s'"
  using assms
proof (induction xs arbitrary: c b s)
  case Nil
  then show ?case by (simp add: crashes_def)
next
  case (Cons x xs)
  obtain c1 b1 s1 where t: "prepareTurn cfg (c, b, s) x = (c1, b1, s1)"
    by (cases "prepareTurn cfg (c, b, s) x")
  from Cons.prems have x: "x < length (validators s)" by simp
  from prepareTurn_step [OF t x] obtain new1 where
    n1: "byzantineEvents s1 = byzantineEvents s @ new1"
        "c1 + crashes new1 = c + (if x = primaryIndex s then 0 else 1)"
        "b1 = b + length new1"
        "\<forall>e\<in>set new1. be_phase e = ''prepare'' \<and> be_blockHeight e = blockHeight s \<and> attributed s e"
        "quiet s s1" "no_faults cfg \<longrightarrow> new1 = []"
    by blast
  have st: "steady s s1" using n1(5) by (rule quiet_steady)
  have len: "length (validators s1) = length (validators s)" using st by (rule steady_length)
  have rest: "foldl (prepareTurn cfg) (c1, b1, s1) xs = (c', b', s')"
    using Cons.prems(1) t by simp
  have "\<forall>i\<in>set xs. i < length (validators s1)" using Cons.prems(2) len by simp
  from Cons.IH [OF rest this] obtain new2 where
    n2: "byzantineEvents s' = byzantineEvents s1 @ new2"
        "c' + crashes new2 = c1 + length (filter (\<lambda>i. i \<noteq> primaryIndex s1) xs)"
        "b' = b1 + length new2"
        "\<forall>e\<in>set new2. be_phase e = ''prepare'' \<and> be_blockHeight e = blockHeight s1 \<and> attributed s1 e"
        "quiet s1 s'" "no_faults cfg \<longrightarrow> new2 = []"
    by blast
  have pi: "primaryIndex s1 = primaryIndex s" using st by (rule steady_primaryIndex)
  have bh: "blockHeight s1 = blockHeight s" using st by (simp add: steady_def)
  have "byzantineEvents s' = byzantineEvents s @ (new1 @ new2)" using n1(1) n2(1) by simp
  moreover have "c' + crashes (new1 @ new2) = c + length (filter (\<lambda>i. i \<noteq> primaryIndex s) (x # xs))"
    using n1(2) n2(2) pi by (auto split: if_splits)
  moreover have "b' = b + length (new1 @ new2)" using n1(3) n2(3) by simp
  moreover have "\<forall>e\<in>set (new1 @ new2). be_phase e = ''prepare'' \<and> be_blockHeight e = blockHeight s \<and> attributed s e"
    using n1(4) n2(4) bh attributed_steady [OF st] by auto
  moreover have "quiet s s'" using n1(5) n2(5) by (rule quiet_trans)
  moreover have "no_faults cfg \<longrightarrow> new1 @ new2 = []" using n1(6) n2(6) by simp
  ultimately show ?case by blast
qed

lemma count_non_primary:
  "length (filter (\<lambda>i. i \<noteq> p) [0..<n]) = (if p < n then n - 1 else n)"
proof -
  have "length (filter (\<lambda>i. i \<noteq> p) [0..<n]) + length (filter (\<lambda>i. \<not> i \<noteq> p) [0..<n]) = n"
    using sum_length_filter_compl [of "\<lambda>i. i \<noteq> p" "[0..<n]"] by simp
  moreover have "filter (\<lambda>i. \<not> i \<noteq> p) [0..<n] = (if p < n then [p] else [])"
    by (induction n) auto
  ultimately show ?thesis by (auto split: if_splits)
qed

lemma prepareLoop_summary:
  assumes "prepareLoop cfg s = (c, b, s')"
  shows "\<exists>new. byzantineEvents s' = byzantineEvents s @ new \<and>
           c + crashes new = length (validators s) - (if validators s = [] then 0 else 1) \<and>
           b = length new \<and>
           (\<forall>e\<in>set new. be_phase e = ''prepare'' \<and> be_blockHeight e = blockHeight s \<and> attributed s e) \<and>
           (no_faults cfg \<longrightarrow> new = []) \<and>
           quiet s s'"
proof -
  have "primaryIndex s < length (validators s) \<longleftrightarrow> validators s \<noteq> []"
    by (cases "validators s") (simp_all add: primaryIndex_def)
  then show ?thesis
    using prepare_fold [of cfg 0 0 s "[0..<length (validators s)]" c b s'] assms
    by (auto simp: prepareLoop_def count_non_primary)
qed

lemma commitTurn_step:
  assumes "commitTurn cfg (c, b, s) i = (c1, b1, s1)" and "i < length (validators s)"
  shows "\<exists>new. byzantineEvents s1 = byzantineEvents s @ new \<and>
           c1 + crashes new = c + 1 \<and> b1 = b + length new \<and>
           (\<forall>e\<in>set new. be_phase e = ''commit'' \<and> be_blockHeight e = blockHeight s \<and> attributed s e) \<and>
           (no_faults cfg \<longrightarrow> new = []) \<and>
           quiet s s1"
proof -
  obtain r t where e: "exhibitsByzantineFailure cfg i s = (r, t)"
    by (cases "exhibitsByzantineFailure cfg i s")
  note ex = exhibits_cases [OF e]
  show ?thesis
  proof (cases r)
    case None
    then show ?thesis using assms e ex
      by (auto simp: commitTurn_def crashes_def quiet_ops)
  next
    case (Some k)
    have st: "static (validators t ! i) = static (validators s ! i)"
      using ex assms(2) unfolding quiet_def steady_def by (metis nth_map length_map)
    have att: "attributed s \<lparr>be_timestamp = now t, be_validator = address (validators t ! i),
          be_validatorIndex = index (validators t ! i), be_blockHeight = blockHeight t,
          be_view = currentView t, be_phase = ''commit'', be_failureType = k\<rparr>"
      using ex Some st assms(2) unfolding attributed_def static_def
      by (auto simp: in_set_conv_nth intro!: exI [of _ i])
    have bh: "blockHeight t = blockHeight s" using ex by (simp add: quiet_def steady_def)
    show ?thesis using assms e ex Some att bh
      by (auto simp: commitTurn_def crashes_def quiet_ops events_recordByzantineEvent Let_def
          split: if_splits)
  qed
qed

lemma commit_fold:
  assumes "foldl (commitTurn cfg) (c, b, s) xs = (c', b', s')"
    and "\<forall>i\<in>set xs. i < length (validators s)"
  shows "\<exists>new. byzantineEvents s' = byzantineEvents s @ new \<and>
           c' + crashes new = c + length xs \<and> b' = b + length new \<and>
           (\<forall>e\<in>set new. be_phase e = ''commit'' \<and> be_blockHeight e = blockHeight s \<and> attributed s e) \<and>
           (no_faults cfg \<longrightarrow> new = []) \<and>
           quiet s s'"
  using assms
proof (induction xs arbitrary: c b s)
  case Nil
  then show ?case by (simp add: crashes_def)
next
  case (Cons x xs)
  obtain c1 b1 s1 where t: "commitTurn cfg (c, b, s) x = (c1, b1, s1)"
    by (cases "commitTurn cfg (c, b, s) x")
  from Cons.prems have x: "x < length (validators s)" by simp
  from commitTurn_step [OF t x] obtain new1 where
    n1: "byzantineEvents s1 = byzantineEvents s @ new1"
        "c1 + crashes new1 = c + 1"
        "b1 = b + length new1"
        "\<forall>e\<in>set new1. be_phase e = ''commit'' \<and> be_blockHeight e = blockHeight s \<and> attributed s e"
        "quiet s s1" "no_faults cfg \<longrightarrow> new1 = []"
    by blast
  have st: "steady s s1" using n1(5) by (rule quiet_steady)
  have len: "length (validators s1) = length (validators s)" using st by (rule steady_length)
  have rest: "foldl (commitTurn cfg) (c1, b1, s1) xs = (c', b', s')"
    using Cons.prems(1) t by simp
  have "\<forall>i\<in>set xs. i < length (validators s1)" using Cons.prems(2) len by simp
  from Cons.IH [OF rest this] obtain new2 where
    n2: "byzantineEvents s' = byzantineEvents s1 @ new2"
        "c' + crashes new2 = c1 + length xs"
        "b' = b1 + length new2"
        "\<forall>e\<in>set new2. be_phase e = ''commit'' \<and> be_blockHeight e = blockHeight s1 \<and> attributed s1 e"
        "quiet s1 s'" "no_faults cfg \<longrightarrow> new2 = []"
    by blast
  have bh: "blockHeight s1 = blockHeight s" using st by (simp add: steady_def)
  have "byzantineEvents s' = byzantineEvents s @ (new1 @ new2)" using n1(1) n2(1) by simp
  moreover have "c' + crashes (new1 @ new2) = c + length (x # xs)"
    using n1(2) n2(2) by simp
  moreover have "b' = b + length (new1 @ new2)" using n1(3) n2(3) by simp
  moreover have "\<forall>e\<in>set (new1 @ new2). be_phase e = ''commit'' \<and> be_blockHeight e = blockHeight s \<and> attributed s e"
    using n1(4) n2(4) bh attributed_steady [OF st] by auto
  moreover have "quiet s s'" using n1(5) n2(5) by (rule quiet_trans)
  moreover have "no_faults cfg \<longrightarrow> new1 @ new2 = []" using n1(6) n2(6) by simp
  ultimately show ?case by blast
qed

lemma commitLoop_summary:
  assumes "commitLoop cfg s = (c, b, s')"
  shows "\<exists>new. byzantineEvents s' = byzantineEvents s @ new \<and>
           c + crashes new = length (validators s) \<and> b = length new \<and>
           (\<forall>e\<in>set new. be_phase e = ''commit'' \<and> be_blockHeight e = blockHeight s \<and> attributed s e) \<and>
           (no_faults cfg \<longrightarrow> new = []) \<and>
           quiet s s'"
  using commit_fold [of cfg 0 0 s "[0..<length (validators s)]" c b s'] assms
  by (auto simp: commitLoop_def)

lemma calm_refl [simp]: "calm s s"
  by (simp add: calm_def)

lemma calm_trans: "calm s s1 \<Longrightarrow> calm s1 s2 \<Longrightarrow> calm s s2"
  by (auto simp: calm_def intro: quiet_trans)

lemma calm_exhibits: "calm s t \<Longrightarrow> calm s (snd (exhibitsByzantineFailure cfg i t))"
  by (simp add: calm_def quiet_exhibits)
     (simp add: exhibitsByzantineFailure_def Let_def map_update_same ballots_def)

lemma calm_recordViewChange: "calm s t \<Longrightarrow> calm s (recordViewChange i b t)"
  by (simp add: calm_def quiet_recordViewChange)
     (simp add: recordViewChange_def Let_def map_update_same ballots_def)

lemma viewChangeTurn_step:
  assumes "viewChangeTurn cfg (c, s) i = (c1, s1)"
  shows "calm s s1 \<and> c1 \<le> c + 1"
proof -
  obtain r t where e: "exhibitsByzantineFailure cfg i s = (r, t)"
    by (cases "exhibitsByzantineFailure cfg i s")
  have "calm s t" using calm_exhibits [of s s cfg i] e by simp
  then show ?thesis using assms e
    by (auto simp: viewChangeTurn_def calm_recordViewChange split: if_splits)
qed

lemma viewChange_fold:
  assumes "foldl (viewChangeTurn cfg) (c, s) xs = (c', s')"
  shows "calm s s' \<and> c' \<le> c + length xs"
  using assms
proof (induction xs arbitrary: c s)
  case Nil
  then show ?case by simp
next
  case (Cons x xs)
  obtain c1 s1 where t: "viewChangeTurn cfg (c, s) x = (c1, s1)"
    by (cases "viewChangeTurn cfg (c, s) x")
  note a = viewChangeTurn_step [OF t]
  have "foldl (viewChangeTurn cfg) (c1, s1) xs = (c', s')" using Cons.prems t by simp
  from Cons.IH [OF this] have b: "calm s1 s'" "c' \<le> c1 + length xs" by simp_all
  from a b show ?case by (auto intro: calm_trans)
qed

lemma viewChangeLoop_summary:
  assumes "viewChangeLoop cfg s = (c, s')"
  shows "calm s s' \<and> c \<le> length (validators s)"
  using viewChange_fold [of cfg 0 s "[0..<length (validators s)]" c s'] assms
  by (simp add: viewChangeLoop_def)

section \<open>The phases\<close>

lemmas plain_defs = sleep_def console_error_def recordNetworkMessages_def
  recordPhaseCompletion_def recordConsensusState_def

lemma runPreparePhase_eq:
  assumes "prepareLoop cfg s = (c, b, s1)"
  shows "runPreparePhase cfg s =
     (if int c < 2 * f s + 1
      then (Inl (prepareError c (2 * f s + 1)), sleep cfg (PREPARE_PHASE_TIME cfg) s1)
      else (Inr (PREPARE_PHASE_TIME cfg + latency cfg (sleepCalls s)),
            recordPhaseCompletion ''prepare'' (PREPARE_PHASE_TIME cfg + latency cfg (sleepCalls s))
              (c * length (validators s)) (Some c) b
              (recordNetworkMessages ''prepare'' (c * length (validators s)) 512
                 (sleep cfg (PREPARE_PHASE_TIME cfg) s1))))"
proof -
  from prepareLoop_summary [OF assms] have q: "quiet s s1" by blast
  then have "f s1 = f s" "now s1 = now s" "sleepCalls s1 = sleepCalls s"
    by (simp_all add: quiet_def steady_def)
  moreover have "length (validators s1) = length (validators s)"
    using q by (intro steady_length quiet_steady)
  ultimately show ?thesis
    by (simp add: runPreparePhase_def assms Let_def prepareError_def plain_defs)
qed

lemma runCommitPhase_eq:
  assumes "commitLoop cfg s = (c, b, s1)"
  shows "runCommitPhase cfg s =
     (if int c < 2 * f s + 1
      then (Inl (commitError c (2 * f s + 1)), sleep cfg (COMMIT_PHASE_TIME cfg) s1)
      else (Inr (COMMIT_PHASE_TIME cfg + latency cfg (sleepCalls s)),
            recordPhaseCompletion ''commit'' (COMMIT_PHASE_TIME cfg + latency cfg (sleepCalls s))
              (c * length (validators s)) (Some c) b
              (recordNetworkMessages ''commit'' (c * length (validators s)) 512
                 (sleep cfg (COMMIT_PHASE_TIME cfg) s1))))"
proof -
  from commitLoop_summary [OF assms] have q: "quiet s s1" by blast
  then have "f s1 = f s" "now s1 = now s" "sleepCalls s1 = sleepCalls s"
    by (simp_all add: quiet_def steady_def)
  moreover have "length (validators s1) = length (validators s)"
    using q by (intro steady_length quiet_steady)
  ultimately show ?thesis
    by (simp add: runCommitPhase_def assms Let_def commitError_def plain_defs)
qed

lemma steady_quiet_ops:
  "steady s t \<Longrightarrow> steady s (recordProposal i t)"
  "steady s t \<Longrightarrow> steady s (recordByzantineEvent i ph k t)"
  using quiet_recordProposal [of t t i] quiet_recordByzantineEvent [of t t i ph k]
  by (auto simp: quiet_def intro: steady_trans)

lemmas steady_ops = steady_quiet_ops steady_sleep steady_recordNetworkMessages
  steady_recordPhaseCompletion

lemma primaryIndex_less: "validators s \<noteq> [] \<Longrightarrow> primaryIndex s < length (validators s)"
  by (simp add: primaryIndex_def)

lemma clock_frame [simp]:
  "now (recordProposal i t) = now t" "sleepCalls (recordProposal i t) = sleepCalls t"
  "now (recordPrepare i b t) = now t" "sleepCalls (recordPrepare i b t) = sleepCalls t"
  "now (recordCommit i b t) = now t" "sleepCalls (recordCommit i b t) = sleepCalls t"
  "now (recordViewChange i b t) = now t" "sleepCalls (recordViewChange i b t) = sleepCalls t"
  "now (recordByzantineEvent i ph k t) = now t"
  "sleepCalls (recordByzantineEvent i ph k t) = sleepCalls t"
  "now (recordNetworkMessages ph m z t) = now t"
  "sleepCalls (recordNetworkMessages ph m z t) = sleepCalls t"
  "now (recordPhaseCompletion ph d m pc bc t) = now t"
  "sleepCalls (recordPhaseCompletion ph d m pc bc t) = sleepCalls t"
  "now (recordConsensusState ev res t) = now t"
  "sleepCalls (recordConsensusState ev res t) = sleepCalls t"
  "now (console_error line t) = now t" "sleepCalls (console_error line t) = sleepCalls t"
  "now (sleep cfg ms t) = now t + ms + latency cfg (sleepCalls t)"
  "sleepCalls (sleep cfg ms t) = sleepCalls t + 1"
  by (simp_all add: recordProposal_def recordPrepare_def recordCommit_def recordViewChange_def
      recordByzantineEvent_def plain_defs Let_def)

lemma validators_frame [simp]:
  "validators (recordByzantineEvent i ph k t) = validators t"
  "validators (recordNetworkMessages ph m z t) = validators t"
  "validators (recordPhaseCompletion ph d m pc bc t) = validators t"
  "validators (recordConsensusState ev res t) = validators t"
  "validators (console_error line t) = validators t"
  "validators (sleep cfg ms t) = validators t"
  by (simp_all add: recordByzantineEvent_def plain_defs)

lemma runPrePreparePhase_summary:
  assumes "runPrePreparePhase cfg s = (r, s')" and "validators s \<noteq> []"
  shows "\<exists>new. byzantineEvents s' = byzantineEvents s @ new \<and>
      (\<forall>e\<in>set new. be_phase e = ''pre-prepare'' \<and> be_blockHeight e = blockHeight s \<and> attributed s e) \<and>
      (no_faults cfg \<longrightarrow> new = [] \<and> r = Inr (PRE_PREPARE_PHASE_TIME cfg + latency cfg (sleepCalls s)) \<and>
         sleepCalls s' = sleepCalls s + 1) \<and>
      steady s s' \<and>
      (r = Inl (Error ''Primary crashed during pre-prepare phase'') \<or> (\<exists>d. r = Inr d))"
proof -
  obtain k t where e: "exhibitsByzantineFailure cfg (primaryIndex s) s = (k, t)"
    by (cases "exhibitsByzantineFailure cfg (primaryIndex s) s")
  note ex = exhibits_cases [OF e]
  have p: "primaryIndex s < length (validators s)" using assms(2) by (rule primaryIndex_less)
  have gp: "getPrimary s = Some (validators s ! primaryIndex s)"
    using p by (simp add: getPrimary_def)
  have st: "steady s t" using ex by (simp add: quiet_def)
  have clk: "now t = now s" "sleepCalls t = sleepCalls s" using ex by (simp_all add: quiet_def)
  show ?thesis
  proof (cases k)
    case None
    have "s' = recordPhaseCompletion ''pre-prepare''
                 (PRE_PREPARE_PHASE_TIME cfg + latency cfg (sleepCalls s))
                 (length (validators (recordProposal (primaryIndex s) t))) None 0
                 (sleep cfg (PRE_PREPARE_PHASE_TIME cfg)
                   (recordNetworkMessages ''pre-prepare''
                     (length (validators (recordProposal (primaryIndex s) t))) 1024
                     (recordProposal (primaryIndex s) t)))"
      and r: "r = Inr (PRE_PREPARE_PHASE_TIME cfg + latency cfg (sleepCalls s))"
      using assms(1) None clk
      by (simp_all add: runPrePreparePhase_def gp e Let_def)
    then show ?thesis using st ex clk
      by (auto simp: steady_ops)
  next
    case (Some kind)
    have stat: "static (validators t ! primaryIndex s) = static (validators s ! primaryIndex s)"
      using ex p unfolding quiet_def steady_def by (metis nth_map length_map)
    have att: "attributed s \<lparr>be_timestamp = now t, be_validator = address (validators t ! primaryIndex s),
          be_validatorIndex = index (validators t ! primaryIndex s), be_blockHeight = blockHeight t,
          be_view = currentView t, be_phase = ''pre-prepare'', be_failureType = kind\<rparr>"
      using ex Some stat p unfolding attributed_def static_def
      by (auto simp: in_set_conv_nth intro!: exI [of _ "primaryIndex s"])
    have bh: "blockHeight t = blockHeight s" using st by (simp add: steady_def)
    have nf: "\<not> no_faults cfg" using ex Some by auto
    show ?thesis
    proof (cases "kind = Crash")
      case True
      then have "s' = recordByzantineEvent (primaryIndex s) ''pre-prepare'' Crash t"
        and "r = Inl (Error ''Primary crashed during pre-prepare phase'')"
        using assms(1) Some by (simp_all add: runPrePreparePhase_def gp e Let_def)
      then show ?thesis using st ex att bh nf True
        by (auto simp: steady_ops events_recordByzantineEvent)
    next
      case False
      define s2 where "s2 =
        (if kind = Delayed
         then sleep cfg (VIEW_CHANGE_TIMEOUT cfg div 2)
                (recordByzantineEvent (primaryIndex s) ''pre-prepare'' kind t)
         else recordByzantineEvent (primaryIndex s) ''pre-prepare'' kind t)"
      have s2: "steady s s2"
        "byzantineEvents s2 = byzantineEvents t @
           [\<lparr>be_timestamp = now t, be_validator = address (validators t ! primaryIndex s),
             be_validatorIndex = index (validators t ! primaryIndex s), be_blockHeight = blockHeight t,
             be_view = currentView t, be_phase = ''pre-prepare'', be_failureType = kind\<rparr>]"
        using st by (simp_all add: s2_def steady_ops events_recordByzantineEvent)
      from False obtain d n where "r = Inr d" and
        "s' = recordPhaseCompletion ''pre-prepare'' d n None 0
               (sleep cfg (PRE_PREPARE_PHASE_TIME cfg)
                 (recordNetworkMessages ''pre-prepare'' n 1024
                   (recordProposal (primaryIndex s) s2)))"
        using assms(1) Some
        by (auto simp: runPrePreparePhase_def gp e Let_def s2_def split: if_splits)
      then show ?thesis using s2 ex att nf bh
        by (auto simp: steady_ops)
    qed
  qed
qed

lemma runPreparePhase_summary:
  assumes "runPreparePhase cfg s = (r, s')"
  shows "\<exists>c new. byzantineEvents s' = byzantineEvents s @ new \<and>
      c + crashes new = length (validators s) - (if validators s = [] then 0 else 1) \<and>
      (\<forall>e\<in>set new. be_phase e = ''prepare'' \<and> be_blockHeight e = blockHeight s \<and> attributed s e) \<and>
      (no_faults cfg \<longrightarrow> new = []) \<and>
      steady s s' \<and> sleepCalls s' = sleepCalls s + 1 \<and>
      r = (if int c < 2 * f s + 1 then Inl (prepareError c (2 * f s + 1))
           else Inr (PREPARE_PHASE_TIME cfg + latency cfg (sleepCalls s)))"
proof -
  obtain c b s1 where l: "prepareLoop cfg s = (c, b, s1)"
    by (cases "prepareLoop cfg s")
  from prepareLoop_summary [OF l] obtain new where
    n: "byzantineEvents s1 = byzantineEvents s @ new"
       "c + crashes new = length (validators s) - (if validators s = [] then 0 else 1)"
       "\<forall>e\<in>set new. be_phase e = ''prepare'' \<and> be_blockHeight e = blockHeight s \<and> attributed s e"
       "no_faults cfg \<longrightarrow> new = []" "quiet s s1"
    by blast
  have st: "steady s s1" and clk: "sleepCalls s1 = sleepCalls s"
    using n(5) by (simp_all add: quiet_def)
  have "byzantineEvents s' = byzantineEvents s @ new \<and> steady s s' \<and>
        sleepCalls s' = sleepCalls s + 1 \<and>
        r = (if int c < 2 * f s + 1 then Inl (prepareError c (2 * f s + 1))
             else Inr (PREPARE_PHASE_TIME cfg + latency cfg (sleepCalls s)))"
    using assms n(1) st clk unfolding runPreparePhase_eq [OF l]
    by (auto simp: steady_ops split: if_splits)
  with n(2,3,4) show ?thesis by blast
qed

lemma runCommitPhase_summary:
  assumes "runCommitPhase cfg s = (r, s')"
  shows "\<exists>c new. byzantineEvents s' = byzantineEvents s @ new \<and>
      c + crashes new = length (validators s) \<and>
      (\<forall>e\<in>set new. be_phase e = ''commit'' \<and> be_blockHeight e = blockHeight s \<and> attributed s e) \<and>
      (no_faults cfg \<longrightarrow> new = []) \<and>
      steady s s' \<and> sleepCalls s' = sleepCalls s + 1 \<and>
      r = (if int c < 2 * f s + 1 then Inl (commitError c (2 * f s + 1))
           else Inr (COMMIT_PHASE_TIME cfg + latency cfg (sleepCalls s)))"
proof -
  obtain c b s1 where l: "commitLoop cfg s = (c, b, s1)"
    by (cases "commitLoop cfg s")
  from commitLoop_summary [OF l] obtain new where
    n: "byzantineEvents s1 = byzantineEvents s @ new"
       "c + crashes new = length (validators s)"
       "\<forall>e\<in>set new. be_phase e = ''commit'' \<and> be_blockHeight e = blockHeight s \<and> attributed s e"
       "no_faults cfg \<longrightarrow> new = []" "quiet s s1"
    by blast
  have st: "steady s s1" and clk: "sleepCalls s1 = sleepCalls s"
    using n(5) by (simp_all add: quiet_def)
  have "byzantineEvents s' = byzantineEvents s @ new \<and> steady s s' \<and>
        sleepCalls s' = sleepCalls s + 1 \<and>
        r = (if int c < 2 * f s + 1 then Inl (commitError c (2 * f s + 1))
             else Inr (COMMIT_PHASE_TIME cfg + latency cfg (sleepCalls s)))"
    using assms n(1) st clk unfolding runCommitPhase_eq [OF l]
    by (auto simp: steady_ops split: if_splits)
  with n(2,3,4) show ?thesis by blast
qed

section \<open>The view change\<close>

lemma initiateViewChange_eq:
  assumes "\<not> viewChangeInProgress s" and "validators s \<noteq> []"
    and "viewChangeLoop cfg (s\<lparr>viewChangeInProgress := True, currentView := currentView s + 1\<rparr>) = (cnt, s3)"
  shows "initiateViewChange cfg reason s =
     (Inr (Some (currentView s + 1)),
      recordConsensusState ''view_change'' None
        ((if int cnt < 2 * f s + 1
          then console_error (''Insufficient view change messages: '' @ decimal cnt @ ''/''
                                @ numeral_text (2 * f s + 1))
                 (sleep cfg (VIEW_CHANGE_TIMEOUT cfg) s3)
          else sleep cfg (VIEW_CHANGE_TIMEOUT cfg) s3)
         \<lparr>viewChanges := viewChanges s @
            [\<lparr>vc_timestamp = now s + VIEW_CHANGE_TIMEOUT cfg + latency cfg (sleepCalls s),
              vc_oldView = currentView s, vc_newView = currentView s + 1, vc_reason = reason,
              vc_duration = VIEW_CHANGE_TIMEOUT cfg + latency cfg (sleepCalls s),
              vc_messageCount = cnt * length (validators s),
              vc_newPrimary = address (validators s3 ! ((currentView s + 1) mod length (validators s)))\<rparr>],
           viewChangeInProgress := False,
           lastViewChangeTime := now s + VIEW_CHANGE_TIMEOUT cfg + latency cfg (sleepCalls s)\<rparr>))"
proof -
  let ?s2 = "s\<lparr>viewChangeInProgress := True, currentView := currentView s + 1\<rparr>"
  from viewChangeLoop_summary [OF assms(3)] have c: "calm ?s2 s3" by simp
  then have q: "quiet ?s2 s3" by (simp add: calm_def)
  then have st: "steady ?s2 s3" by (simp add: quiet_def)
  have len: "length (validators s3) = length (validators s)"
    using steady_length [OF st] by simp
  have flds: "f s3 = f s" "now s3 = now s" "sleepCalls s3 = sleepCalls s"
    "currentView s3 = currentView s + 1" "viewChanges s3 = viewChanges s"
    using q by (simp_all add: quiet_def steady_def)
  have pos: "0 < length (validators s)" using assms(2) by simp
  show ?thesis
    using assms(1) assms(3) pos len flds
    by (simp add: initiateViewChange_def Let_def getPrimary_def primaryIndex_def plain_defs)
qed

section \<open>A round\<close>

lemma runPhases_cases:
  assumes "runPhases cfg s = (r, s')"
  obtains (pre) e where "runPrePreparePhase cfg s = (Inl e, s')" "r = Inl e"
  | (prep) t1 s1 e where "runPrePreparePhase cfg s = (Inr t1, s1)"
      "runPreparePhase cfg s1 = (Inl e, s')" "r = Inl e"
  | (comm) t1 s1 t2 s2 e where "runPrePreparePhase cfg s = (Inr t1, s1)"
      "runPreparePhase cfg s1 = (Inr t2, s2)" "runCommitPhase cfg s2 = (Inl e, s')" "r = Inl e"
  | (ok) t1 s1 t2 s2 t3 where "runPrePreparePhase cfg s = (Inr t1, s1)"
      "runPreparePhase cfg s1 = (Inr t2, s2)" "runCommitPhase cfg s2 = (Inr t3, s')"
      "r = Inr \<lparr>prePrepare = t1, prepare = t2, commit = t3\<rparr>"
  using assms unfolding runPhases_def
  by (auto split: prod.splits sum.splits)

lemma runPhases_summary:
  assumes "runPhases cfg s = (r, s')" and "validators s \<noteq> []"
  shows "steady s s' \<and>
     (\<exists>new. byzantineEvents s' = byzantineEvents s @ new \<and> (\<forall>e\<in>set new. attributed s e))"
  using assms(1)
proof (cases rule: runPhases_cases)
  case (pre e)
  from runPrePreparePhase_summary [OF pre(1) assms(2)] show ?thesis by blast
next
  case (prep t1 s1 e)
  from runPrePreparePhase_summary [OF prep(1) assms(2)] obtain n1 where
    a: "byzantineEvents s1 = byzantineEvents s @ n1" "\<forall>e\<in>set n1. attributed s e" "steady s s1"
    by blast
  from runPreparePhase_summary [OF prep(2)] obtain n2 where
    b: "byzantineEvents s' = byzantineEvents s1 @ n2" "\<forall>e\<in>set n2. attributed s1 e" "steady s1 s'"
    by blast
  have "byzantineEvents s' = byzantineEvents s @ (n1 @ n2)" using a(1) b(1) by simp
  moreover have "\<forall>e\<in>set (n1 @ n2). attributed s e"
    using a(2) b(2) attributed_steady [OF a(3)] by auto
  moreover have "steady s s'" using a(3) b(3) by (rule steady_trans)
  ultimately show ?thesis by blast
next
  case (comm t1 s1 t2 s2 e)
  from runPrePreparePhase_summary [OF comm(1) assms(2)] obtain n1 where
    a: "byzantineEvents s1 = byzantineEvents s @ n1" "\<forall>e\<in>set n1. attributed s e" "steady s s1"
    by blast
  from runPreparePhase_summary [OF comm(2)] obtain n2 where
    b: "byzantineEvents s2 = byzantineEvents s1 @ n2" "\<forall>e\<in>set n2. attributed s1 e" "steady s1 s2"
    by blast
  from runCommitPhase_summary [OF comm(3)] obtain n3 where
    c: "byzantineEvents s' = byzantineEvents s2 @ n3" "\<forall>e\<in>set n3. attributed s2 e" "steady s2 s'"
    by blast
  have s2: "steady s s2" using a(3) b(3) by (rule steady_trans)
  have "byzantineEvents s' = byzantineEvents s @ (n1 @ n2 @ n3)" using a(1) b(1) c(1) by simp
  moreover have "\<forall>e\<in>set (n1 @ n2 @ n3). attributed s e"
    using a(2) b(2) c(2) attributed_steady [OF a(3)] attributed_steady [OF s2] by auto
  moreover have "steady s s'" using s2 c(3) by (rule steady_trans)
  ultimately show ?thesis by blast
next
  case (ok t1 s1 t2 s2 t3)
  from runPrePreparePhase_summary [OF ok(1) assms(2)] obtain n1 where
    a: "byzantineEvents s1 = byzantineEvents s @ n1" "\<forall>e\<in>set n1. attributed s e" "steady s s1"
    by blast
  from runPreparePhase_summary [OF ok(2)] obtain n2 where
    b: "byzantineEvents s2 = byzantineEvents s1 @ n2" "\<forall>e\<in>set n2. attributed s1 e" "steady s1 s2"
    by blast
  from runCommitPhase_summary [OF ok(3)] obtain n3 where
    c: "byzantineEvents s' = byzantineEvents s2 @ n3" "\<forall>e\<in>set n3. attributed s2 e" "steady s2 s'"
    by blast
  have s2: "steady s s2" using a(3) b(3) by (rule steady_trans)
  have "byzantineEvents s' = byzantineEvents s @ (n1 @ n2 @ n3)" using a(1) b(1) c(1) by simp
  moreover have "\<forall>e\<in>set (n1 @ n2 @ n3). attributed s e"
    using a(2) b(2) c(2) attributed_steady [OF a(3)] attributed_steady [OF s2] by auto
  moreover have "steady s s'" using s2 c(3) by (rule steady_trans)
  ultimately show ?thesis by blast
qed

lemma runConsensus_success:
  assumes "validators s \<noteq> []"
    and "runPhases cfg (s\<lparr>blockHeight := blockHeight s + 1\<rparr>) = (Inr pt, s1)"
  shows "runConsensus cfg txHash receipt s =
     (Inr (successResult txHash pt s1),
      recordConsensusState ''consensus_complete'' (Some (successResult txHash pt s1)) s1)"
proof -
  have "getPrimary (s\<lparr>blockHeight := blockHeight s + 1\<rparr>) \<noteq> None"
    using assms(1) by (simp add: getPrimary_def primaryIndex_def)
  then show ?thesis using assms(2)
    by (auto simp: runConsensus_def Let_def successResult_def)
qed

lemma runConsensus_failed:
  assumes "validators s \<noteq> []"
    and "runPhases cfg (s\<lparr>blockHeight := blockHeight s + 1\<rparr>) = (Inl err, s1)"
    and "s2 = snd (if viewChangeInProgress s then (Inr None, console_error (''PBFT consensus failed: '' @ message err) s1)
                   else initiateViewChange cfg (message err)
                          (console_error (''PBFT consensus failed: '' @ message err) s1))"
  shows "runConsensus cfg txHash receipt s =
     (Inr (failureResult err s2),
      recordConsensusState ''consensus_complete'' (Some (failureResult err s2)) s2)"
proof -
  let ?s = "s\<lparr>blockHeight := blockHeight s + 1\<rparr>"
  define t where "t = console_error (''PBFT consensus failed: '' @ message err) s1"
  have gp: "getPrimary ?s \<noteq> None"
    using assms(1) by (simp add: getPrimary_def primaryIndex_def)
  have st: "steady ?s s1" using runPhases_summary [OF assms(2)] assms(1) by simp
  have eq: "runConsensus cfg txHash receipt s =
      (case (if \<not> viewChangeInProgress t then initiateViewChange cfg (message err) t
             else (Inr None, t)) of
         (Inl e, s3) \<Rightarrow> (Inl e, s3)
       | (Inr _, s3) \<Rightarrow>
           (Inr (failureResult err s3),
            recordConsensusState ''consensus_complete'' (Some (failureResult err s3)) s3))"
    using gp assms(2) unfolding t_def
    by (auto simp: runConsensus_def Let_def failureResult_def split: prod.splits sum.splits)
  have fl: "viewChangeInProgress t = viewChangeInProgress s"
    using st by (simp add: steady_def console_error_def t_def)
  have s2: "s2 = snd (if viewChangeInProgress s then (Inr None, t)
                      else initiateViewChange cfg (message err) t)"
    using assms(3) by (simp only: t_def)
  show ?thesis
  proof (cases "viewChangeInProgress s")
    case True
    then show ?thesis unfolding eq s2 using fl by simp
  next
    case False
    then have nf: "\<not> viewChangeInProgress t" using fl by simp
    have ne: "validators t \<noteq> []"
      using steady_length [OF st] assms(1) by (auto simp: t_def console_error_def)
    obtain cnt s3 where
      l: "viewChangeLoop cfg (t\<lparr>viewChangeInProgress := True, currentView := currentView t + 1\<rparr>) = (cnt, s3)"
      by (cases "viewChangeLoop cfg (t\<lparr>viewChangeInProgress := True, currentView := currentView t + 1\<rparr>)")
    note vc = initiateViewChange_eq [OF nf ne l, of "message err"]
    show ?thesis unfolding eq s2 using False nf by (simp add: vc)
  qed
qed

text \<open>The definitions a run on a given world unfolds to.\<close>

lemmas run_defs = runConsensus_def runPhases_def runPrePreparePhase_def runPreparePhase_def
  runCommitPhase_def prepareLoop_def prepareTurn_def commitLoop_def commitTurn_def
  initiateViewChange_def viewChangeLoop_def viewChangeTurn_def exhibitsByzantineFailure_def
  recordPrepare_def recordCommit_def recordProposal_def recordViewChange_def
  recordByzantineEvent_def recordNetworkMessages_def recordPhaseCompletion_def
  recordConsensusState_def validatorState_def getPrimary_def primaryIndex_def sleep_def
  console_error_def numeral_text_def digit_def worldOf_def validatorOf_def module_start_def
  defaults_def Let_def upt_rec decimal.simps

lemma initiateViewChange_summary:
  assumes "\<not> viewChangeInProgress s" and "validators s \<noteq> []"
    and "cnt = fst (viewChangeLoop cfg (s\<lparr>viewChangeInProgress := True, currentView := currentView s + 1\<rparr>))"
  shows "\<exists>s' r. initiateViewChange cfg reason s = (Inr (Some (currentView s + 1)), s') \<and>
      map static (validators s') = map static (validators s) \<and>
      map honest (validators s') = map honest (validators s) \<and>
      map ballots (validators s') = map ballots (validators s) \<and>
      f s' = f s \<and> blockHeight s' = blockHeight s \<and> currentView s' = currentView s + 1 \<and>
      \<not> viewChangeInProgress s' \<and>
      byzantineEvents s' = byzantineEvents s \<and> networkMessages s' = networkMessages s \<and>
      consensusPhases s' = consensusPhases s \<and>
      sleepCalls s' = sleepCalls s + 1 \<and>
      now s' = now s + VIEW_CHANGE_TIMEOUT cfg + latency cfg (sleepCalls s) \<and>
      stderr s' = stderr s @
        (if int cnt < 2 * f s + 1
         then [''Insufficient view change messages: '' @ decimal cnt @ ''/'' @ numeral_text (2 * f s + 1)]
         else []) \<and>
      viewChanges s' = viewChanges s @ [r] \<and>
      vc_oldView r = currentView s \<and> vc_newView r = currentView s + 1 \<and> vc_reason r = reason \<and>
      vc_duration r = VIEW_CHANGE_TIMEOUT cfg + latency cfg (sleepCalls s) \<and>
      vc_messageCount r = cnt * length (validators s) \<and>
      vc_newPrimary r = address (validators s ! ((currentView s + 1) mod length (validators s)))"
proof -
  let ?s2 = "s\<lparr>viewChangeInProgress := True, currentView := currentView s + 1\<rparr>"
  obtain s3 where l: "viewChangeLoop cfg ?s2 = (cnt, s3)"
    using assms(3) by (cases "viewChangeLoop cfg ?s2") simp
  from viewChangeLoop_summary [OF l] have c: "calm ?s2 s3" by simp
  then have q: "quiet ?s2 s3" by (simp add: calm_def)
  then have st: "steady ?s2 s3" by (simp add: quiet_def)
  have flds: "map static (validators s3) = map static (validators s)"
    "map honest (validators s3) = map honest (validators s)"
    "map ballots (validators s3) = map ballots (validators s)"
    "f s3 = f s" "blockHeight s3 = blockHeight s"
    "byzantineEvents s3 = byzantineEvents s" "networkMessages s3 = networkMessages s"
    "consensusPhases s3 = consensusPhases s" "sleepCalls s3 = sleepCalls s" "now s3 = now s"
    "stderr s3 = stderr s" "currentView s3 = currentView s + 1"
    using c by (simp_all add: calm_def quiet_def steady_def)
  have len: "length (validators s3) = length (validators s)"
    using steady_length [OF st] by simp
  have "(currentView s + 1) mod length (validators s) < length (validators s)"
    using assms(2) by simp
  then have "static (validators s3 ! ((currentView s + 1) mod length (validators s))) =
        static (validators s ! ((currentView s + 1) mod length (validators s)))"
    using flds(1) len by (metis nth_map)
  then have addr: "address (validators s3 ! ((currentView s + 1) mod length (validators s))) =
        address (validators s ! ((currentView s + 1) mod length (validators s)))"
    by (simp add: static_def)
  show ?thesis
    unfolding initiateViewChange_eq [OF assms(1,2) l]
    using flds addr by (simp add: plain_defs)
qed

section \<open>A run\<close>

lemma evolves_refl [simp]: "evolves s s"
  by (simp add: evolves_def)

lemma attributed_static:
  "map static (validators s') = map static (validators s) \<Longrightarrow> attributed s' e = attributed s e"
  by (simp add: attributed_def)

lemma evolves_trans:
  assumes "evolves s s1" and "evolves s1 s2"
  shows "evolves s s2"
proof -
  from assms(1) obtain n1 v1 where
    a: "byzantineEvents s1 = byzantineEvents s @ n1" "\<forall>e\<in>set n1. attributed s e"
       "viewChanges s1 = viewChanges s @ v1" "\<forall>r\<in>set v1. vc_newView r = vc_oldView r + 1"
    unfolding evolves_def by blast
  from assms(2) obtain n2 v2 where
    b: "byzantineEvents s2 = byzantineEvents s1 @ n2" "\<forall>e\<in>set n2. attributed s1 e"
       "viewChanges s2 = viewChanges s1 @ v2" "\<forall>r\<in>set v2. vc_newView r = vc_oldView r + 1"
    unfolding evolves_def by blast
  have m: "map static (validators s1) = map static (validators s)"
    using assms(1) by (simp add: evolves_def)
  have "byzantineEvents s2 = byzantineEvents s @ (n1 @ n2)" using a(1) b(1) by simp
  moreover have "\<forall>e\<in>set (n1 @ n2). attributed s e"
    using a(2) b(2) attributed_static [OF m] by auto
  moreover have "viewChanges s2 = viewChanges s @ (v1 @ v2)" using a(3) b(3) by simp
  moreover have "\<forall>r\<in>set (v1 @ v2). vc_newView r = vc_oldView r + 1" using a(4) b(4) by auto
  ultimately have "(\<exists>new. byzantineEvents s2 = byzantineEvents s @ new \<and> (\<forall>e\<in>set new. attributed s e)) \<and>
     (\<exists>vcs. viewChanges s2 = viewChanges s @ vcs \<and> (\<forall>r\<in>set vcs. vc_newView r = vc_oldView r + 1))"
    by blast
  then show ?thesis using assms unfolding evolves_def by simp
qed

lemma steady_evolves:
  assumes "steady s t" and "byzantineEvents t = byzantineEvents s @ new"
    and "\<forall>e\<in>set new. attributed s e"
  shows "evolves s t"
proof -
  have "viewChanges t = viewChanges s @ []" using assms(1) by (simp add: steady_def)
  then have "\<exists>vcs. viewChanges t = viewChanges s @ vcs \<and> (\<forall>r\<in>set vcs. vc_newView r = vc_oldView r + 1)"
    by (intro exI [of _ "[]"]) simp
  moreover have "\<exists>new. byzantineEvents t = byzantineEvents s @ new \<and> (\<forall>e\<in>set new. attributed s e)"
    using assms(2,3) by blast
  ultimately show ?thesis using assms(1) unfolding evolves_def steady_def by simp
qed

lemma evolves_plain:
  "evolves s t \<Longrightarrow> evolves s (recordConsensusState ev res t)"
  "evolves s t \<Longrightarrow> evolves s (console_error line t)"
  by (simp_all add: evolves_def plain_defs)

lemma evolves_blockHeight: "evolves s (s\<lparr>blockHeight := blockHeight s + 1\<rparr>)"
  by (simp add: evolves_def attributed_def)

lemma initiateViewChange_evolves:
  assumes "\<not> viewChangeInProgress s" and "validators s \<noteq> []"
  shows "evolves s (snd (initiateViewChange cfg reason s))"
proof -
  from initiateViewChange_summary [OF assms refl, of cfg reason] obtain s' r where
    v: "initiateViewChange cfg reason s = (Inr (Some (currentView s + 1)), s')"
      "map static (validators s') = map static (validators s)"
      "map honest (validators s') = map honest (validators s)"
      "f s' = f s" "blockHeight s' = blockHeight s" "currentView s' = currentView s + 1"
      "\<not> viewChangeInProgress s'" "byzantineEvents s' = byzantineEvents s"
      "viewChanges s' = viewChanges s @ [r]"
      "vc_oldView r = currentView s" "vc_newView r = currentView s + 1"
    by blast
  have "\<exists>vcs. viewChanges s' = viewChanges s @ vcs \<and> (\<forall>r\<in>set vcs. vc_newView r = vc_oldView r + 1)"
    using v(9,10,11) by (intro exI [of _ "[r]"]) simp
  moreover have "\<exists>new. byzantineEvents s' = byzantineEvents s @ new \<and> (\<forall>e\<in>set new. attributed s e)"
    using v(8) by (intro exI [of _ "[]"]) simp
  ultimately show ?thesis using v(1-7) unfolding evolves_def by simp
qed

lemma runConsensus_evolves: "evolves s (snd (runConsensus cfg txHash receipt s))"
proof (cases "validators s = []")
  case True
  then have "getPrimary (s\<lparr>blockHeight := blockHeight s + 1\<rparr>) = None"
    by (simp add: getPrimary_def primaryIndex_def)
  then show ?thesis using evolves_blockHeight [of s]
    by (simp add: runConsensus_def Let_def)
next
  case False
  let ?s = "s\<lparr>blockHeight := blockHeight s + 1\<rparr>"
  obtain r s1 where ph: "runPhases cfg ?s = (r, s1)" by (cases "runPhases cfg ?s")
  have ne: "validators ?s \<noteq> []" using False by simp
  from runPhases_summary [OF ph ne] obtain new where
    p: "steady ?s s1" "byzantineEvents s1 = byzantineEvents ?s @ new" "\<forall>e\<in>set new. attributed ?s e"
    by blast
  have e1: "evolves s s1"
    using evolves_blockHeight [of s] steady_evolves [OF p] by (rule evolves_trans)
  show ?thesis
  proof (cases r)
    case (Inr pt)
    show ?thesis
      using e1 runConsensus_success [OF False ph [unfolded Inr], of txHash receipt]
      by (simp add: evolves_plain)
  next
    case (Inl err)
    define t where "t = console_error (''PBFT consensus failed: '' @ message err) s1"
    have et: "evolves s t" using e1 by (simp add: t_def evolves_plain)
    have fl: "viewChangeInProgress t = viewChangeInProgress s"
      using p(1) by (simp add: t_def steady_def console_error_def)
    have len: "length (validators t) = length (validators s)"
      using steady_length [OF p(1)] by (simp add: t_def console_error_def)
    define s2 where "s2 = snd (if viewChangeInProgress s then (Inr None, t)
                               else initiateViewChange cfg (message err) t)"
    have rc: "snd (runConsensus cfg txHash receipt s) =
        recordConsensusState ''consensus_complete'' (Some (failureResult err s2)) s2"
      using runConsensus_failed [OF False ph [unfolded Inl], of s2 txHash receipt]
      by (simp add: s2_def t_def)
    have "evolves s s2"
    proof (cases "viewChangeInProgress s")
      case True
      then show ?thesis using et by (simp add: s2_def)
    next
      case nf: False
      have "\<not> viewChangeInProgress t" using fl nf by simp
      moreover have "validators t \<noteq> []" using len False by auto
      ultimately have "evolves t s2"
        using initiateViewChange_evolves [of t cfg "message err"] nf by (simp add: s2_def)
      with et show ?thesis by (rule evolves_trans)
    qed
    then show ?thesis unfolding rc by (rule evolves_plain)
  qed
qed

lemma runRounds_evolves: "evolves s (snd (runRounds cfg txs s))"
proof (induction txs arbitrary: s)
  case Nil
  show ?case by simp
next
  case (Cons tx txs)
  obtain txHash receipt where tx: "tx = (txHash, receipt)" by (cases tx)
  obtain r s1 where rc: "runConsensus cfg txHash receipt s = (r, s1)"
    by (cases "runConsensus cfg txHash receipt s")
  have e1: "evolves s s1" using runConsensus_evolves [of s cfg txHash receipt] rc by simp
  show ?case
  proof (cases r)
    case (Inl e)
    then show ?thesis using e1 rc tx by simp
  next
    case (Inr res)
    have "evolves s1 (snd (runRounds cfg txs s1))" by (rule Cons.IH)
    with e1 have "evolves s (snd (runRounds cfg txs s1))" by (rule evolves_trans)
    then show ?thesis using rc tx Inr by (auto split: prod.splits sum.splits)
  qed
qed

lemma initiateViewChange_Some:
  assumes "initiateViewChange cfg reason s = (Inr (Some v), s')"
  shows "\<not> viewChangeInProgress s \<and> validators s \<noteq> []"
proof -
  have a: "\<not> viewChangeInProgress s"
    using assms by (auto simp: initiateViewChange_def)
  have "validators s \<noteq> []"
  proof
    assume "validators s = []"
    then have "getPrimary (s\<lparr>viewChangeInProgress := True\<rparr>) = None"
      by (simp add: getPrimary_def primaryIndex_def)
    then show False using assms a by (simp add: initiateViewChange_def Let_def)
  qed
  with a show ?thesis by simp
qed

lemma runConsensus_Inr:
  assumes "runConsensus cfg txHash receipt s = (Inr res, s')"
  shows "validators s \<noteq> []"
proof
  assume "validators s = []"
  then have "getPrimary (s\<lparr>blockHeight := blockHeight s + 1\<rparr>) = None"
    by (simp add: getPrimary_def primaryIndex_def)
  then show False using assms by (simp add: runConsensus_def Let_def)
qed

lemma exhibits_crash:
  assumes "isByzantine (validators s ! i)" and "byzantineType (validators s ! i) = Some Crash"
    and "random cfg (randomCalls s) < BYZANTINE_FAILURE_PROBABILITY cfg"
  shows "fst (exhibitsByzantineFailure cfg i s) = Some Crash"
  using assms by (simp add: exhibitsByzantineFailure_def Let_def)

lemma ballots_exhibits:
  "map ballots (validators (snd (exhibitsByzantineFailure cfg i s))) = map ballots (validators s)"
  using calm_exhibits [of s s cfg i] by (simp add: calm_def)

lemma runPhases_ok_events:
  assumes "runPhases cfg s = (Inr pt, s')" and "validators s \<noteq> []"
  shows "\<exists>n1 n2 n3 c2 c3. byzantineEvents s' = byzantineEvents s @ n1 @ n2 @ n3 \<and>
      (\<forall>e\<in>set n1. be_phase e = ''pre-prepare'') \<and> (\<forall>e\<in>set n2. be_phase e = ''prepare'') \<and>
      (\<forall>e\<in>set n3. be_phase e = ''commit'') \<and>
      c2 + crashes n2 = length (validators s) - 1 \<and> c3 + crashes n3 = length (validators s) \<and>
      \<not> int c2 < 2 * f s + 1 \<and> \<not> int c3 < 2 * f s + 1 \<and> steady s s'"
  using assms(1)
proof (cases rule: runPhases_cases)
  case (ok t1 s1 t2 s2 t3)
  from runPrePreparePhase_summary [OF ok(1) assms(2)] obtain n1 where
    a: "byzantineEvents s1 = byzantineEvents s @ n1" "\<forall>e\<in>set n1. be_phase e = ''pre-prepare''"
       "steady s s1"
    by blast
  from runPreparePhase_summary [OF ok(2)] obtain c2 n2 where
    b: "byzantineEvents s2 = byzantineEvents s1 @ n2" "\<forall>e\<in>set n2. be_phase e = ''prepare''"
       "c2 + crashes n2 = length (validators s1) - (if validators s1 = [] then 0 else 1)"
       "steady s1 s2"
       "Inr t2 = (if int c2 < 2 * f s1 + 1 then Inl (prepareError c2 (2 * f s1 + 1))
                  else Inr (PREPARE_PHASE_TIME cfg + latency cfg (sleepCalls s1)))"
    by blast
  from runCommitPhase_summary [OF ok(3)] obtain c3 n3 where
    c: "byzantineEvents s' = byzantineEvents s2 @ n3" "\<forall>e\<in>set n3. be_phase e = ''commit''"
       "c3 + crashes n3 = length (validators s2)" "steady s2 s'"
       "Inr t3 = (if int c3 < 2 * f s2 + 1 then Inl (commitError c3 (2 * f s2 + 1))
                  else Inr (COMMIT_PHASE_TIME cfg + latency cfg (sleepCalls s2)))"
    by blast
  have s2: "steady s s2" using a(3) b(4) by (rule steady_trans)
  have len: "length (validators s1) = length (validators s)"
    "length (validators s2) = length (validators s)"
    using steady_length [OF a(3)] steady_length [OF s2] by simp_all
  have fs: "f s1 = f s" "f s2 = f s" using a(3) s2 by (simp_all add: steady_def)
  have ne1: "validators s1 \<noteq> []" using len(1) assms(2) by auto
  have "byzantineEvents s' = byzantineEvents s @ n1 @ n2 @ n3" using a(1) b(1) c(1) by simp
  moreover have "c2 + crashes n2 = length (validators s) - 1" using b(3) ne1 len(1) by simp
  moreover have "c3 + crashes n3 = length (validators s)" using c(3) len(2) by simp
  moreover have "\<not> int c2 < 2 * f s + 1" using b(5) fs(1) by (auto split: if_splits)
  moreover have "\<not> int c3 < 2 * f s + 1" using c(5) fs(2) by (auto split: if_splits)
  moreover have "steady s s'" using s2 c(4) by (rule steady_trans)
  ultimately show ?thesis using a(2) b(2) c(2) by blast
qed simp_all

lemma filter_phase:
  assumes "\<forall>e\<in>set n1. be_phase e = ''pre-prepare''" and "\<forall>e\<in>set n2. be_phase e = ''prepare''"
    and "\<forall>e\<in>set n3. be_phase e = ''commit''"
  shows "filter (\<lambda>e. be_phase e = ''prepare'') (n1 @ n2 @ n3) = n2"
    and "filter (\<lambda>e. be_phase e = ''commit'') (n1 @ n2 @ n3) = n3"
proof -
  have "filter (\<lambda>e. be_phase e = ''prepare'') n1 = []" "filter (\<lambda>e. be_phase e = ''commit'') n1 = []"
    using assms(1) by (auto simp: filter_empty_conv)
  moreover have "filter (\<lambda>e. be_phase e = ''prepare'') n2 = n2" "filter (\<lambda>e. be_phase e = ''commit'') n2 = []"
    using assms(2) by (auto simp: filter_empty_conv filter_id_conv)
  moreover have "filter (\<lambda>e. be_phase e = ''prepare'') n3 = []" "filter (\<lambda>e. be_phase e = ''commit'') n3 = n3"
    using assms(3) by (auto simp: filter_empty_conv filter_id_conv)
  ultimately show "filter (\<lambda>e. be_phase e = ''prepare'') (n1 @ n2 @ n3) = n2"
    and "filter (\<lambda>e. be_phase e = ''commit'') (n1 @ n2 @ n3) = n3"
    by simp_all
qed

section \<open>Rounds without faults\<close>

lemma no_faults_zero:
  "BYZANTINE_FAILURE_PROBABILITY cfg = 0 \<Longrightarrow> random_ok cfg \<Longrightarrow> no_faults cfg"
  by (simp add: no_faults_def random_ok_def not_less)

lemma quorum_of_registry:
  fixes n :: nat
  assumes "2 \<le> n"
  shows "\<not> int (n - 1) < 2 * ((int n - 1) div 3) + 1" and "\<not> int n < 2 * ((int n - 1) div 3) + 1"
  using assms by (simp_all add: of_nat_diff)

lemma runPhases_no_faults:
  assumes "no_faults cfg" and "2 \<le> length (validators s)"
    and "f s = (int (length (validators s)) - 1) div 3"
  shows "\<exists>s'. runPhases cfg s =
      (Inr \<lparr>prePrepare = PRE_PREPARE_PHASE_TIME cfg + latency cfg (sleepCalls s),
            prepare = PREPARE_PHASE_TIME cfg + latency cfg (sleepCalls s + 1),
            commit = COMMIT_PHASE_TIME cfg + latency cfg (sleepCalls s + 2)\<rparr>, s') \<and>
      steady s s' \<and> sleepCalls s' = sleepCalls s + 3"
proof -
  have ne: "validators s \<noteq> []" using assms(2) by auto
  obtain r1 s1 where p1: "runPrePreparePhase cfg s = (r1, s1)"
    by (cases "runPrePreparePhase cfg s")
  from runPrePreparePhase_summary [OF p1 ne] assms(1) have
    a: "r1 = Inr (PRE_PREPARE_PHASE_TIME cfg + latency cfg (sleepCalls s))"
       "sleepCalls s1 = sleepCalls s + 1" "steady s s1"
    by auto
  have l1: "length (validators s1) = length (validators s)" using a(3) by (rule steady_length)
  have f1: "f s1 = f s" using a(3) by (simp add: steady_def)
  obtain r2 s2 where p2: "runPreparePhase cfg s1 = (r2, s2)"
    by (cases "runPreparePhase cfg s1")
  from runPreparePhase_summary [OF p2] assms(1) obtain c2 where
    b: "c2 + crashes [] = length (validators s1) - (if validators s1 = [] then 0 else 1)"
       "steady s1 s2" "sleepCalls s2 = sleepCalls s1 + 1"
       "r2 = (if int c2 < 2 * f s1 + 1 then Inl (prepareError c2 (2 * f s1 + 1))
              else Inr (PREPARE_PHASE_TIME cfg + latency cfg (sleepCalls s1)))"
    by auto
  have c2: "c2 = length (validators s) - 1" using b(1) l1 ne by (auto simp: crashes_def)
  have r2: "r2 = Inr (PREPARE_PHASE_TIME cfg + latency cfg (sleepCalls s + 1))"
    using b(4) quorum_of_registry(1) [OF assms(2)] by (simp add: c2 f1 assms(3) a(2))
  have l2: "length (validators s2) = length (validators s)"
    using steady_length [OF b(2)] l1 by simp
  have f2: "f s2 = f s" using b(2) f1 by (simp add: steady_def)
  obtain r3 s3 where p3: "runCommitPhase cfg s2 = (r3, s3)"
    by (cases "runCommitPhase cfg s2")
  from runCommitPhase_summary [OF p3] assms(1) obtain c3 where
    c: "c3 + crashes [] = length (validators s2)"
       "steady s2 s3" "sleepCalls s3 = sleepCalls s2 + 1"
       "r3 = (if int c3 < 2 * f s2 + 1 then Inl (commitError c3 (2 * f s2 + 1))
              else Inr (COMMIT_PHASE_TIME cfg + latency cfg (sleepCalls s2)))"
    by auto
  have c3: "c3 = length (validators s)" using c(1) l2 by (simp add: crashes_def)
  have r3: "r3 = Inr (COMMIT_PHASE_TIME cfg + latency cfg (sleepCalls s + 2))"
    using c(4) quorum_of_registry(2) [OF assms(2)] by (simp add: c3 f2 assms(3) b(3) a(2))
  have "runPhases cfg s =
      (Inr \<lparr>prePrepare = PRE_PREPARE_PHASE_TIME cfg + latency cfg (sleepCalls s),
            prepare = PREPARE_PHASE_TIME cfg + latency cfg (sleepCalls s + 1),
            commit = COMMIT_PHASE_TIME cfg + latency cfg (sleepCalls s + 2)\<rparr>, s3)"
    using p1 p2 p3 a(1) r2 r3 by (simp add: runPhases_def)
  moreover have "steady s s3" using a(3) b(2) c(2) by (blast intro: steady_trans)
  moreover have "sleepCalls s3 = sleepCalls s + 3" using a(2) b(3) c(3) by simp
  ultimately show ?thesis by blast
qed

lemma runConsensus_no_faults:
  assumes "no_faults cfg" and "2 \<le> length (validators s)"
    and "f s = (int (length (validators s)) - 1) div 3"
  shows "\<exists>res s'. runConsensus cfg txHash receipt s = (Inr res, s') \<and> success res \<and>
      r_totalTime res = Some (PRE_PREPARE_PHASE_TIME cfg + PREPARE_PHASE_TIME cfg + COMMIT_PHASE_TIME cfg
         + latency cfg (sleepCalls s) + latency cfg (sleepCalls s + 1) + latency cfg (sleepCalls s + 2)) \<and>
      length (validators s') = length (validators s) \<and> f s' = f s \<and>
      sleepCalls s' = sleepCalls s + 3"
proof -
  let ?s = "s\<lparr>blockHeight := blockHeight s + 1\<rparr>"
  have ne: "validators s \<noteq> []" using assms(2) by auto
  have "2 \<le> length (validators ?s)" "f ?s = (int (length (validators ?s)) - 1) div 3"
    using assms(2,3) by simp_all
  from runPhases_no_faults [OF assms(1) this] obtain s1 where
    p: "runPhases cfg ?s =
      (Inr \<lparr>prePrepare = PRE_PREPARE_PHASE_TIME cfg + latency cfg (sleepCalls s),
            prepare = PREPARE_PHASE_TIME cfg + latency cfg (sleepCalls s + 1),
            commit = COMMIT_PHASE_TIME cfg + latency cfg (sleepCalls s + 2)\<rparr>, s1)"
      "steady ?s s1" "sleepCalls s1 = sleepCalls s + 3"
    by auto
  have "length (validators s1) = length (validators s)" "f s1 = f s"
    using steady_length [OF p(2)] p(2) by (simp_all add: steady_def)
  then show ?thesis
    using runConsensus_success [OF ne p(1), of txHash receipt] p(3)
    by (simp add: successResult_def plain_defs)
qed

section \<open>The prepare loop and the primary\<close>

lemma exhibits_other:
  "j \<noteq> i \<Longrightarrow> validators (snd (exhibitsByzantineFailure cfg i s)) ! j = validators s ! j"
  by (simp add: exhibitsByzantineFailure_def Let_def)

lemma recordPrepare_other:
  "j \<noteq> i \<Longrightarrow> validators (recordPrepare i b s) ! j = validators s ! j"
  by (simp add: recordPrepare_def Let_def)

lemma prepareTurn_primary:
  assumes "prepareTurn cfg (c, b, s) i = (c1, b1, s1)"
  shows "validators s1 ! primaryIndex s = validators s ! primaryIndex s"
proof (cases "i = primaryIndex s")
  case True
  then show ?thesis using assms by (simp add: prepareTurn_def)
next
  case False
  obtain r t where e: "exhibitsByzantineFailure cfg i s = (r, t)"
    by (cases "exhibitsByzantineFailure cfg i s")
  have t: "validators t ! primaryIndex s = validators s ! primaryIndex s"
    using exhibits_other [of "primaryIndex s" i cfg s] False e by simp
  show ?thesis using assms False e t
    by (auto simp: prepareTurn_def Let_def recordPrepare_other split: option.splits if_splits)
qed

lemma prepare_fold_primary:
  assumes "foldl (prepareTurn cfg) (c, b, s) xs = (c', b', s')"
    and "\<forall>i\<in>set xs. i < length (validators s)"
  shows "validators s' ! primaryIndex s = validators s ! primaryIndex s"
  using assms
proof (induction xs arbitrary: c b s)
  case Nil
  then show ?case by simp
next
  case (Cons x xs)
  obtain c1 b1 s1 where t: "prepareTurn cfg (c, b, s) x = (c1, b1, s1)"
    by (cases "prepareTurn cfg (c, b, s) x")
  from Cons.prems have x: "x < length (validators s)" by simp
  from prepareTurn_step [OF t x] have q: "quiet s s1" by blast
  then have st: "steady s s1" by (rule quiet_steady)
  have "foldl (prepareTurn cfg) (c1, b1, s1) xs = (c', b', s')" using Cons.prems(1) t by simp
  moreover have "\<forall>i\<in>set xs. i < length (validators s1)"
    using Cons.prems(2) steady_length [OF st] by simp
  ultimately have "validators s' ! primaryIndex s1 = validators s1 ! primaryIndex s1"
    by (rule Cons.IH)
  then show ?case using steady_primaryIndex [OF st] prepareTurn_primary [OF t] by simp
qed

lemma prepareTurn_crash:
  assumes "prepareTurn cfg (c, b, s) i = (c1, b1, s1)"
    and "\<forall>k. random cfg k < BYZANTINE_FAILURE_PROBABILITY cfg"
    and "i \<noteq> primaryIndex s \<longrightarrow>
           isByzantine (validators s ! i) \<and> byzantineType (validators s ! i) = Some Crash"
  shows "c1 = c"
proof (cases "i = primaryIndex s")
  case True
  then show ?thesis using assms(1) by (simp add: prepareTurn_def)
next
  case False
  then have "fst (exhibitsByzantineFailure cfg i s) = Some Crash"
    using assms(2,3) by (simp add: exhibitsByzantineFailure_def Let_def)
  then show ?thesis using assms(1) False
    by (cases "exhibitsByzantineFailure cfg i s") (simp add: prepareTurn_def Let_def)
qed

lemma prepare_fold_crash:
  assumes "foldl (prepareTurn cfg) (c, b, s) xs = (c', b', s')"
    and "\<forall>k. random cfg k < BYZANTINE_FAILURE_PROBABILITY cfg"
    and "\<forall>i\<in>set xs. i < length (validators s) \<and> (i \<noteq> primaryIndex s \<longrightarrow>
           isByzantine (validators s ! i) \<and> byzantineType (validators s ! i) = Some Crash)"
  shows "c' = c"
  using assms(1,3)
proof (induction xs arbitrary: c b s)
  case Nil
  then show ?case by simp
next
  case (Cons x xs)
  obtain c1 b1 s1 where t: "prepareTurn cfg (c, b, s) x = (c1, b1, s1)"
    by (cases "prepareTurn cfg (c, b, s) x")
  from Cons.prems have x: "x < length (validators s)" by simp
  from prepareTurn_step [OF t x] have q: "quiet s s1" by blast
  then have st: "steady s s1" by (rule quiet_steady)
  have len: "length (validators s1) = length (validators s)" using st by (rule steady_length)
  have ms: "map static (validators s1) = map static (validators s)"
    using st by (simp add: steady_def)
  have same: "\<And>i. i < length (validators s) \<Longrightarrow>
      isByzantine (validators s1 ! i) = isByzantine (validators s ! i) \<and>
      byzantineType (validators s1 ! i) = byzantineType (validators s ! i)"
  proof -
    fix i assume "i < length (validators s)"
    then have "static (validators s1 ! i) = static (validators s ! i)"
      using ms len by (metis nth_map)
    then show "isByzantine (validators s1 ! i) = isByzantine (validators s ! i) \<and>
      byzantineType (validators s1 ! i) = byzantineType (validators s ! i)"
      by (simp add: static_def)
  qed
  have c1: "c1 = c" using prepareTurn_crash [OF t assms(2)] Cons.prems(2) by simp
  have "foldl (prepareTurn cfg) (c1, b1, s1) xs = (c', b', s')" using Cons.prems(1) t by simp
  moreover have "\<forall>i\<in>set xs. i < length (validators s1) \<and> (i \<noteq> primaryIndex s1 \<longrightarrow>
           isByzantine (validators s1 ! i) \<and> byzantineType (validators s1 ! i) = Some Crash)"
    using Cons.prems(2) len same steady_primaryIndex [OF st] by simp
  ultimately have "c' = c1" by (rule Cons.IH)
  with c1 show ?case by simp
qed

lemma prepareLoop_crash:
  assumes "\<forall>k. random cfg k < BYZANTINE_FAILURE_PROBABILITY cfg"
    and "\<forall>i<length (validators s). i \<noteq> primaryIndex s \<longrightarrow>
           isByzantine (validators s ! i) \<and> byzantineType (validators s ! i) = Some Crash"
  shows "fst (prepareLoop cfg s) = 0"
proof -
  obtain c b s' where l: "prepareLoop cfg s = (c, b, s')" by (cases "prepareLoop cfg s")
  then have "foldl (prepareTurn cfg) (0, 0, s) [0..<length (validators s)] = (c, b, s')"
    by (simp add: prepareLoop_def)
  from prepare_fold_crash [OF this assms(1)] assms(2) have "c = 0" by simp
  with l show ?thesis by simp
qed

lemma exhibits_honest:
  "\<not> isByzantine (validators s ! i) \<Longrightarrow> exhibitsByzantineFailure cfg i s = (None, s)"
  by (simp add: exhibitsByzantineFailure_def Let_def)

section \<open>The constructors\<close>

lemma kind_index:
  fixes r :: rat
  assumes "0 \<le> r" and "r < 1"
  shows "0 \<le> \<lfloor>r * 3\<rfloor> \<and> \<lfloor>r * 3\<rfloor> < 3"
proof -
  have "0 \<le> r * 3" using assms(1) by simp
  then have "0 \<le> \<lfloor>r * 3\<rfloor>" by simp
  moreover have "r * 3 < 3" using assms(2) by simp
  then have "\<lfloor>r * 3\<rfloor> < 3" by (simp add: floor_less_iff)
  ultimately show ?thesis by simp
qed

lemma new_PBFTValidator_fresh:
  assumes "new_PBFTValidator cfg a i byz s = (v, s1)"
  shows "failures v = 0 \<and> isByzantine v = byz \<and> index v = i \<and> address v = a \<and>
         (\<not> byz \<longrightarrow> byzantineType v = None) \<and>
         (byz \<and> random_ok cfg \<longrightarrow> byzantineType v \<in> Some ` set BYZANTINE_FAILURE_TYPES)"
proof (cases byz)
  case False
  then show ?thesis using assms by (auto simp: new_PBFTValidator_def)
next
  case True
  define k where "k = \<lfloor>random cfg (randomCalls s) * 3\<rfloor>"
  have v: "failures v = 0" "isByzantine v = byz" "index v = i" "address v = a"
    "byzantineType v = (if 0 \<le> k \<and> k < 3 then Some (BYZANTINE_FAILURE_TYPES ! nat k) else None)"
    using assms True
    by (auto simp: new_PBFTValidator_def BYZANTINE_FAILURE_TYPES_def Let_def k_def)
  have "byzantineType v \<in> Some ` set BYZANTINE_FAILURE_TYPES" if "random_ok cfg"
  proof -
    have k: "0 \<le> k \<and> k < 3"
      using kind_index [of "random cfg (randomCalls s)"] that by (simp add: random_ok_def k_def)
    have "length BYZANTINE_FAILURE_TYPES = 3" by (simp add: BYZANTINE_FAILURE_TYPES_def)
    with k have "nat k < length BYZANTINE_FAILURE_TYPES" by linarith
    then have "BYZANTINE_FAILURE_TYPES ! nat k \<in> set BYZANTINE_FAILURE_TYPES"
      by (rule nth_mem)
    then show ?thesis using v(5) k by simp
  qed
  then show ?thesis using v(1-4) True by simp
qed

lemma mapValidators_fresh:
  assumes "mapValidators cfg byz accounts i s = (vs, s1)"
  shows "length vs = length accounts \<and>
         (\<forall>v\<in>set vs. failures v = 0 \<and> (\<not> isByzantine v \<longrightarrow> byzantineType v = None) \<and>
            (isByzantine v \<and> random_ok cfg \<longrightarrow> byzantineType v \<in> Some ` set BYZANTINE_FAILURE_TYPES))"
  using assms
proof (induction accounts arbitrary: i s vs s1)
  case Nil
  then show ?case by simp
next
  case (Cons a accounts)
  obtain v t where n: "new_PBFTValidator cfg a i (int i \<in> set byz) s = (v, t)"
    by (cases "new_PBFTValidator cfg a i (int i \<in> set byz) s")
  obtain ws t' where m: "mapValidators cfg byz accounts (i + 1) t = (ws, t')"
    by (cases "mapValidators cfg byz accounts (i + 1) t")
  have vs: "vs = v # ws" using Cons.prems n m by simp
  from new_PBFTValidator_fresh [OF n] Cons.IH [OF m] show ?case
    unfolding vs by auto
qed

lemma new_PBFTConsensus_fresh:
  assumes "new_PBFTConsensus cfg accounts s0 = Some s"
  shows "length (validators s) = length accounts \<and>
         (\<forall>v\<in>set (validators s). failures v = 0 \<and> (\<not> isByzantine v \<longrightarrow> byzantineType v = None) \<and>
            (isByzantine v \<and> random_ok cfg \<longrightarrow> byzantineType v \<in> Some ` set BYZANTINE_FAILURE_TYPES)) \<and>
         \<not> viewChangeInProgress s \<and> currentView s = 0 \<and> blockHeight s = 0 \<and>
         f s = (int (length accounts) - 1) div 3"
proof -
  from assms obtain idx calls vs s1 where
    m: "mapValidators cfg idx accounts 0 (s0\<lparr>randomCalls := calls\<rparr>) = (vs, s1)"
    and s: "s = recordConsensusState ''initialization'' None
              (s1\<lparr>validators := vs, currentView := 0, f := (int (length vs) - 1) div 3,
                  blockHeight := 0, viewChangeInProgress := False, lastViewChangeTime := 0\<rparr>)"
    by (auto simp: new_PBFTConsensus_def setupValidators_def split: option.splits prod.splits)
  from mapValidators_fresh [OF m] show ?thesis
    unfolding s by (simp add: recordConsensusState_def)
qed

lemma evolves_validators:
  assumes "evolves s s'" and "j < length (validators s)"
  shows "length (validators s') = length (validators s)"
    and "isByzantine (validators s' ! j) = isByzantine (validators s ! j)"
    and "byzantineType (validators s' ! j) = byzantineType (validators s ! j)"
    and "\<not> isByzantine (validators s ! j) \<Longrightarrow> failures (validators s' ! j) = failures (validators s ! j)"
proof -
  have ms: "map static (validators s') = map static (validators s)"
    and mh: "map honest (validators s') = map honest (validators s)"
    using assms(1) by (simp_all add: evolves_def)
  show len: "length (validators s') = length (validators s)" using ms by (metis length_map)
  have "static (validators s' ! j) = static (validators s ! j)"
    using ms len assms(2) by (metis nth_map)
  then show b: "isByzantine (validators s' ! j) = isByzantine (validators s ! j)"
    and "byzantineType (validators s' ! j) = byzantineType (validators s ! j)"
    by (simp_all add: static_def)
  have "honest (validators s' ! j) = honest (validators s ! j)"
    using mh len assms(2) by (metis nth_map)
  then show "failures (validators s' ! j) = failures (validators s ! j)"
    if "\<not> isByzantine (validators s ! j)"
    using that b by (simp add: honest_def)
qed

lemma attributed_validator:
  assumes "attributed s e"
  shows "\<exists>v\<in>set (validators s). isByzantine v \<and> byzantineType v = Some (be_failureType e) \<and>
           index v = be_validatorIndex e \<and> address v = be_validator e"
  using assms by (auto simp: attributed_def static_def)

text \<open>
  With one Byzantine validator to draw, as in the file, the loop of \<open>setupValidators\<close> ends
  after one turn and the constructor returns. The world it returns has no view change in
  progress, and no run changes that.
\<close>

lemma drawByzantineIndices_one:
  assumes "BYZANTINE_VALIDATOR_COUNT cfg = 1"
  shows "drawByzantineIndices cfg n [] calls = Some ([\<lfloor>random cfg calls * of_nat n\<rfloor>], calls + 1)"
  using assms
  by (subst drawByzantineIndices.simps, subst drawByzantineIndices.simps) simp

lemma new_PBFTConsensus_returns:
  assumes "BYZANTINE_VALIDATOR_COUNT cfg = 1"
  shows "\<exists>s. new_PBFTConsensus cfg accounts s0 = Some s"
  using drawByzantineIndices_one [OF assms]
  by (simp add: new_PBFTConsensus_def setupValidators_def split: prod.splits)

lemma run_not_in_progress:
  assumes "new_PBFTConsensus cfg accounts s0 = Some s"
  shows "\<not> viewChangeInProgress (snd (runRounds cfg' txs s))"
  using new_PBFTConsensus_fresh [OF assms] runRounds_evolves [of s cfg' txs]
  by (simp add: evolves_def)

section \<open>The claims\<close>

text \<open>
  C1. A phase is agreed exactly when its participant count reaches \<open>2f + 1\<close>: the prepare
  phase and the commit phase throw \<open>Insufficient ... messages: count/required\<close> exactly when
  the count their loop produced is below \<open>2 * f + 1\<close>, and return their duration otherwise;
  and a round whose pre-prepare phase returned fails with the message of the first phase
  whose count is below the threshold, and succeeds when neither is.
\<close>

theorem quorum_decides:
  "fst (runPreparePhase cfg s) =
     (if int (fst (prepareLoop cfg s)) < 2 * f s + 1
      then Inl (Error (''Insufficient prepare messages: '' @ decimal (fst (prepareLoop cfg s))
                        @ ''/'' @ numeral_text (2 * f s + 1)))
      else Inr (PREPARE_PHASE_TIME cfg + latency cfg (sleepCalls s)))
   \<and> fst (runCommitPhase cfg s) =
     (if int (fst (commitLoop cfg s)) < 2 * f s + 1
      then Inl (Error (''Insufficient commit messages: '' @ decimal (fst (commitLoop cfg s))
                        @ ''/'' @ numeral_text (2 * f s + 1)))
      else Inr (COMMIT_PHASE_TIME cfg + latency cfg (sleepCalls s)))
   \<and> (validators s \<noteq> [] \<longrightarrow>
       (\<forall>t1 s1. runPrePreparePhase cfg (s\<lparr>blockHeight := blockHeight s + 1\<rparr>) = (Inr t1, s1) \<longrightarrow>
          (\<exists>res. fst (runConsensus cfg txHash receipt s) = Inr res \<and>
             (success res, r_error res) =
               (if int (fst (prepareLoop cfg s1)) < 2 * f s + 1
                then (False, Some (''Insufficient prepare messages: ''
                        @ decimal (fst (prepareLoop cfg s1)) @ ''/'' @ numeral_text (2 * f s + 1)))
                else if int (fst (commitLoop cfg (snd (runPreparePhase cfg s1)))) < 2 * f s + 1
                then (False, Some (''Insufficient commit messages: ''
                        @ decimal (fst (commitLoop cfg (snd (runPreparePhase cfg s1))))
                        @ ''/'' @ numeral_text (2 * f s + 1)))
                else (True, None)))))"
proof (intro conjI impI allI)
  show "fst (runPreparePhase cfg s) =
     (if int (fst (prepareLoop cfg s)) < 2 * f s + 1
      then Inl (Error (''Insufficient prepare messages: '' @ decimal (fst (prepareLoop cfg s))
                        @ ''/'' @ numeral_text (2 * f s + 1)))
      else Inr (PREPARE_PHASE_TIME cfg + latency cfg (sleepCalls s)))"
    by (cases "prepareLoop cfg s") (simp add: runPreparePhase_eq prepareError_def)
  show "fst (runCommitPhase cfg s) =
     (if int (fst (commitLoop cfg s)) < 2 * f s + 1
      then Inl (Error (''Insufficient commit messages: '' @ decimal (fst (commitLoop cfg s))
                        @ ''/'' @ numeral_text (2 * f s + 1)))
      else Inr (COMMIT_PHASE_TIME cfg + latency cfg (sleepCalls s)))"
    by (cases "commitLoop cfg s") (simp add: runCommitPhase_eq commitError_def)
next
  fix t1 s1
  let ?s = "s\<lparr>blockHeight := blockHeight s + 1\<rparr>"
  assume ne: "validators s \<noteq> []" and pre: "runPrePreparePhase cfg ?s = (Inr t1, s1)"
  have ne': "validators ?s \<noteq> []" using ne by simp
  from runPrePreparePhase_summary [OF pre ne'] have st1: "steady ?s s1" by blast
  then have f1: "f s1 = f s" by (simp add: steady_def)
  obtain pc pb s1' where pl: "prepareLoop cfg s1 = (pc, pb, s1')" by (cases "prepareLoop cfg s1")
  obtain r2 s2 where prep: "runPreparePhase cfg s1 = (r2, s2)" by (cases "runPreparePhase cfg s1")
  from runPreparePhase_summary [OF prep] have st2: "steady s1 s2" by blast
  then have f2: "f s2 = f s" using f1 by (simp add: steady_def)
  obtain cc cb s2' where cl: "commitLoop cfg s2 = (cc, cb, s2')" by (cases "commitLoop cfg s2")
  obtain r3 s3 where com: "runCommitPhase cfg s2 = (r3, s3)" by (cases "runCommitPhase cfg s2")
  have r2: "r2 = (if int pc < 2 * f s + 1 then Inl (prepareError pc (2 * f s + 1))
                  else Inr (PREPARE_PHASE_TIME cfg + latency cfg (sleepCalls s1)))"
    using prep by (simp add: runPreparePhase_eq [OF pl] f1 split: if_splits)
  have r3: "r3 = (if int cc < 2 * f s + 1 then Inl (commitError cc (2 * f s + 1))
                  else Inr (COMMIT_PHASE_TIME cfg + latency cfg (sleepCalls s2)))"
    using com by (simp add: runCommitPhase_eq [OF cl] f2 split: if_splits)
  consider (a) "int pc < 2 * f s + 1"
    | (b) "\<not> int pc < 2 * f s + 1" "int cc < 2 * f s + 1"
    | (c) "\<not> int pc < 2 * f s + 1" "\<not> int cc < 2 * f s + 1"
    by blast
  then show "\<exists>res. fst (runConsensus cfg txHash receipt s) = Inr res \<and>
             (success res, r_error res) =
               (if int (fst (prepareLoop cfg s1)) < 2 * f s + 1
                then (False, Some (''Insufficient prepare messages: ''
                        @ decimal (fst (prepareLoop cfg s1)) @ ''/'' @ numeral_text (2 * f s + 1)))
                else if int (fst (commitLoop cfg (snd (runPreparePhase cfg s1)))) < 2 * f s + 1
                then (False, Some (''Insufficient commit messages: ''
                        @ decimal (fst (commitLoop cfg (snd (runPreparePhase cfg s1))))
                        @ ''/'' @ numeral_text (2 * f s + 1)))
                else (True, None))"
  proof cases
    case a
    have "runPhases cfg ?s = (Inl (prepareError pc (2 * f s + 1)), s2)"
      using pre prep r2 a by (simp add: runPhases_def)
    from runConsensus_failed [OF ne this refl, of txHash receipt] show ?thesis
      using a pl by (simp add: failureResult_def prepareError_def)
  next
    case b
    have "runPhases cfg ?s = (Inl (commitError cc (2 * f s + 1)), s3)"
      using pre prep com r2 r3 b by (simp add: runPhases_def)
    from runConsensus_failed [OF ne this refl, of txHash receipt] show ?thesis
      using b pl cl prep by (simp add: failureResult_def commitError_def)
  next
    case c
    have "\<exists>pt. runPhases cfg ?s = (Inr pt, s3)"
      using pre prep com r2 r3 c by (simp add: runPhases_def)
    then obtain pt where "runPhases cfg ?s = (Inr pt, s3)" by blast
    from runConsensus_success [OF ne this, of txHash receipt] show ?thesis
      using c pl cl prep by (simp add: successResult_def)
  qed
qed

theorem quorum_decides_witness:
  "validators (worldOf [None, Some Crash, None, None]) \<noteq> [] \<and>
   fst (runPrePreparePhase (defaults (\<lambda>_. 0) (\<lambda>_. 0))
          ((worldOf [None, Some Crash, None, None])\<lparr>blockHeight := 1\<rparr>)) = Inr 200 \<and>
   (\<exists>res. fst (runConsensus (defaults (\<lambda>_. 0) (\<lambda>_. 0)) ''tx'' () (worldOf [None, Some Crash, None, None])) = Inr res \<and>
      (success res, r_error res) = (False, Some ''Insufficient prepare messages: 2/3''))"
proof -
  let ?C = "defaults (\<lambda>_. 0) (\<lambda>_. 0)"
  let ?W = "worldOf [None, Some Crash, None, None]"
  let ?W1 = "?W\<lparr>blockHeight := blockHeight ?W + 1\<rparr>"
  have h1: "validators ?W \<noteq> []" by (simp add: run_defs)
  have bh: "blockHeight ?W + 1 = 1" by (simp add: run_defs)
  have fst1: "fst (runPrePreparePhase ?C ?W1) = Inr 200" by (simp add: run_defs)
  then have h2: "runPrePreparePhase ?C ?W1 = (Inr 200, snd (runPrePreparePhase ?C ?W1))"
    by (simp add: prod_eq_iff)
  have pc: "fst (prepareLoop ?C (snd (runPrePreparePhase ?C ?W1))) = 2" by (simp add: run_defs)
  have fW: "f ?W = 1" by (simp add: run_defs)
  have str: "decimal 2 = ''2''" "numeral_text 3 = ''3''" by (simp_all add: run_defs)
  from quorum_decides [of ?C ?W "''tx''" "()", THEN conjunct2, THEN conjunct2, rule_format, OF h1 h2]
  have "\<exists>res. fst (runConsensus ?C ''tx'' () ?W) = Inr res \<and>
      (success res, r_error res) = (False, Some ''Insufficient prepare messages: 2/3'')"
    unfolding pc fW by (simp add: str)
  then show ?thesis using h1 fst1 bh by simp
qed

text \<open>
  C2. The loop of the prepare phase passes over the primary: it leaves the primary's
  record as it is, and the prepare count and the crashes of the phase add up to \<open>N - 1\<close>, so
  the count that is compared with \<open>2f + 1\<close> is a count of validators other than the primary.
  With four validators and \<open>f = 1\<close>, when every draw falls below the failure probability
  and the three validators other than the primary are Byzantine of kind crash, the count
  is \<open>0\<close> and the phase throws \<open>Insufficient prepare messages: 0/3\<close>; when the primary is not
  Byzantine, the round fails with that error.
\<close>

theorem prepare_counts_non_primary_only:
  "(validators s \<noteq> [] \<longrightarrow>
      validators (snd (snd (prepareLoop cfg s))) ! primaryIndex s = validators s ! primaryIndex s \<and>
      fst (prepareLoop cfg s)
        + crashes (drop (length (byzantineEvents s)) (byzantineEvents (snd (snd (prepareLoop cfg s)))))
        = length (validators s) - 1)
   \<and> (length (validators s) = 4 \<and> f s = 1 \<and>
       (\<forall>k. random cfg k < BYZANTINE_FAILURE_PROBABILITY cfg) \<and>
       (\<forall>i<length (validators s). i \<noteq> primaryIndex s \<longrightarrow>
           isByzantine (validators s ! i) \<and> byzantineType (validators s ! i) = Some Crash) \<longrightarrow>
       fst (prepareLoop cfg s) = 0 \<and>
       fst (runPreparePhase cfg s) = Inl (Error ''Insufficient prepare messages: 0/3'') \<and>
       (\<not> isByzantine (validators s ! primaryIndex s) \<longrightarrow>
          (\<exists>res. fst (runConsensus cfg txHash receipt s) = Inr res \<and> \<not> success res \<and>
                 r_error res = Some ''Insufficient prepare messages: 0/3'')))"
proof (intro conjI impI)
  assume ne: "validators s \<noteq> []"
  obtain c b s' where l: "prepareLoop cfg s = (c, b, s')" by (cases "prepareLoop cfg s")
  then have fo: "foldl (prepareTurn cfg) (0, 0, s) [0..<length (validators s)] = (c, b, s')"
    by (simp add: prepareLoop_def)
  from prepare_fold_primary [OF fo] l
  show "validators (snd (snd (prepareLoop cfg s))) ! primaryIndex s = validators s ! primaryIndex s"
    by simp
  from prepareLoop_summary [OF l] ne l
  show "fst (prepareLoop cfg s)
        + crashes (drop (length (byzantineEvents s)) (byzantineEvents (snd (snd (prepareLoop cfg s)))))
        = length (validators s) - 1"
    by auto
next
  assume a: "length (validators s) = 4 \<and> f s = 1 \<and>
       (\<forall>k. random cfg k < BYZANTINE_FAILURE_PROBABILITY cfg) \<and>
       (\<forall>i<length (validators s). i \<noteq> primaryIndex s \<longrightarrow>
           isByzantine (validators s ! i) \<and> byzantineType (validators s ! i) = Some Crash)"
  have msg: "decimal 0 = ''0''" "numeral_text 3 = ''3''"
    by (simp_all add: decimal.simps [of 0] decimal.simps [of 3] numeral_text_def digit_def)
  have z: "fst (prepareLoop cfg s) = 0" using a prepareLoop_crash [of cfg s] by simp
  then show "fst (prepareLoop cfg s) = 0" .
  obtain c b s' where l: "prepareLoop cfg s = (c, b, s')" by (cases "prepareLoop cfg s")
  show "fst (runPreparePhase cfg s) = Inl (Error ''Insufficient prepare messages: 0/3'')"
    using z l a by (simp add: runPreparePhase_eq [OF l] prepareError_def msg)
  show "\<exists>res. fst (runConsensus cfg txHash receipt s) = Inr res \<and> \<not> success res \<and>
                 r_error res = Some ''Insufficient prepare messages: 0/3''"
    if hp: "\<not> isByzantine (validators s ! primaryIndex s)"
  proof -
    let ?s = "s\<lparr>blockHeight := blockHeight s + 1\<rparr>"
    have ne: "validators s \<noteq> []" using a by auto
    then have ne': "validators ?s \<noteq> []" by simp
    have pi: "primaryIndex ?s = primaryIndex s" by (simp add: primaryIndex_def)
    have ex: "exhibitsByzantineFailure cfg (primaryIndex ?s) ?s = (None, ?s)"
      using hp by (intro exhibits_honest) (simp add: primaryIndex_def)
    obtain r1 s1 where p1: "runPrePreparePhase cfg ?s = (r1, s1)"
      by (cases "runPrePreparePhase cfg ?s")
    have gp: "getPrimary ?s \<noteq> None" using ne by (simp add: getPrimary_def primaryIndex_def)
    have "\<exists>t1. r1 = Inr t1" using p1 gp ex
      by (auto simp: runPrePreparePhase_def Let_def)
    then obtain t1 where r1: "r1 = Inr t1" by blast
    from runPrePreparePhase_summary [OF p1 ne'] have st: "steady ?s s1" by blast
    have len: "length (validators s1) = length (validators s)"
      using steady_length [OF st] by simp
    have ms: "map static (validators s1) = map static (validators s)"
      using st by (simp add: steady_def)
    have p1i: "primaryIndex s1 = primaryIndex s" using steady_primaryIndex [OF st] pi by simp
    have f1: "f s1 = 1" using st a by (simp add: steady_def)
    have hyp: "\<forall>i<length (validators s1). i \<noteq> primaryIndex s1 \<longrightarrow>
           isByzantine (validators s1 ! i) \<and> byzantineType (validators s1 ! i) = Some Crash"
    proof (intro allI impI)
      fix i assume i: "i < length (validators s1)" "i \<noteq> primaryIndex s1"
      then have "static (validators s1 ! i) = static (validators s ! i)"
        using ms len by (metis nth_map)
      then show "isByzantine (validators s1 ! i) \<and> byzantineType (validators s1 ! i) = Some Crash"
        using a i len p1i by (simp add: static_def)
    qed
    have z1: "fst (prepareLoop cfg s1) = 0" using a hyp prepareLoop_crash [of cfg s1] by simp
    obtain c b s1' where l1: "prepareLoop cfg s1 = (c, b, s1')" by (cases "prepareLoop cfg s1")
    obtain r2 s2 where p2: "runPreparePhase cfg s1 = (r2, s2)" by (cases "runPreparePhase cfg s1")
    have r2: "r2 = Inl (prepareError 0 3)"
      using p2 z1 l1 f1 by (simp add: runPreparePhase_eq [OF l1])
    have "runPhases cfg ?s = (Inl (prepareError 0 3), s2)"
      using p1 r1 p2 r2 by (simp add: runPhases_def)
    from runConsensus_failed [OF ne this refl, of txHash receipt] show ?thesis
      by (simp add: failureResult_def prepareError_def msg)
  qed
qed

theorem prepare_counts_non_primary_only_witness:
  "fst (prepareLoop (defaults (\<lambda>_. 0) (\<lambda>_. 0)) (worldOf [None, Some Crash, Some Crash, Some Crash])) = 0 \<and>
   fst (runPreparePhase (defaults (\<lambda>_. 0) (\<lambda>_. 0)) (worldOf [None, Some Crash, Some Crash, Some Crash]))
     = Inl (Error ''Insufficient prepare messages: 0/3'') \<and>
   (\<exists>res. fst (runConsensus (defaults (\<lambda>_. 0) (\<lambda>_. 0)) ''tx'' ()
                 (worldOf [None, Some Crash, Some Crash, Some Crash])) = Inr res \<and> \<not> success res \<and>
          r_error res = Some ''Insufficient prepare messages: 0/3'') \<and>
   preparesSent (validators (snd (snd (prepareLoop (defaults (\<lambda>_. 1 / 2) (\<lambda>_. 0))
      (worldOf [None, Some Crash, Some Crash, Some Crash])))) ! 0) = 0"
proof -
  let ?C = "defaults (\<lambda>_. 0) (\<lambda>_. 0)"
  let ?D = "defaults (\<lambda>_. 1 / 2) (\<lambda>_. 0)"
  let ?W = "worldOf [None, Some Crash, Some Crash, Some Crash]"
  have w: "length (validators ?W) = 4" "f ?W = 1" "primaryIndex ?W = 0"
    "validators ?W \<noteq> []" "preparesSent (validators ?W ! 0) = 0"
    by (simp_all add: run_defs)
  have r: "\<forall>k. random ?C k < BYZANTINE_FAILURE_PROBABILITY ?C" by (simp add: defaults_def)
  have v: "\<forall>i<length (validators ?W). i \<noteq> primaryIndex ?W \<longrightarrow>
           isByzantine (validators ?W ! i) \<and> byzantineType (validators ?W ! i) = Some Crash"
  proof (intro allI impI)
    fix i assume "i < length (validators ?W)" "i \<noteq> primaryIndex ?W"
    then have "i = 1 \<or> i = 2 \<or> i = 3" unfolding w by arith
    then show "isByzantine (validators ?W ! i) \<and> byzantineType (validators ?W ! i) = Some Crash"
      by (auto simp: run_defs)
  qed
  have hp: "\<not> isByzantine (validators ?W ! primaryIndex ?W)" by (simp add: run_defs)
  note t = prepare_counts_non_primary_only [of ?W ?C "''tx''" "()"]
  note u = prepare_counts_non_primary_only [of ?W ?D "''tx''" "()"]
  from t [THEN conjunct2, rule_format, OF conjI [OF w(1) conjI [OF w(2) conjI [OF r v]]]] hp
  have a: "fst (prepareLoop ?C ?W) = 0"
    "fst (runPreparePhase ?C ?W) = Inl (Error ''Insufficient prepare messages: 0/3'')"
    "\<exists>res. fst (runConsensus ?C ''tx'' () ?W) = Inr res \<and> \<not> success res \<and>
          r_error res = Some ''Insufficient prepare messages: 0/3''"
    by simp_all
  from u [THEN conjunct1, rule_format, OF w(4), THEN conjunct1]
  have "preparesSent (validators (snd (snd (prepareLoop ?D ?W))) ! 0) = 0"
    unfolding w(3) by (simp add: w(5))
  with a show ?thesis by simp
qed

text \<open>
  C3. When the primary is a Byzantine validator of kind crash and the draw of the
  pre-prepare phase falls below the failure probability, the round (started with no view
  change in progress) returns a failure with error
  \<open>Primary crashed during pre-prepare phase\<close>. No validator's proposal, prepare or commit
  counter has changed; no phase record and no network message record has been appended;
  the only event appended is the primary's crash in phase \<open>pre-prepare\<close>; the only sleep is
  the one of the view change, so neither the prepare nor the commit phase ran; and the
  view change has been recorded, with that error as its reason, and its new view is the
  view of the result.
\<close>

theorem primary_crash_aborts_round:
  assumes "validators s \<noteq> []" and "\<not> viewChangeInProgress s"
    and "isByzantine (validators s ! primaryIndex s)"
    and "byzantineType (validators s ! primaryIndex s) = Some Crash"
    and "random cfg (randomCalls s) < BYZANTINE_FAILURE_PROBABILITY cfg"
  shows "\<exists>res s' e r. runConsensus cfg txHash receipt s = (Inr res, s') \<and>
      \<not> success res \<and> r_error res = Some ''Primary crashed during pre-prepare phase'' \<and>
      map ballots (validators s') = map ballots (validators s) \<and>
      consensusPhases s' = consensusPhases s \<and> networkMessages s' = networkMessages s \<and>
      byzantineEvents s' = byzantineEvents s @ [e] \<and> be_phase e = ''pre-prepare'' \<and>
      be_failureType e = Crash \<and> be_validatorIndex e = index (validators s ! primaryIndex s) \<and>
      sleepCalls s' = sleepCalls s + 1 \<and>
      now s' = now s + VIEW_CHANGE_TIMEOUT cfg + latency cfg (sleepCalls s) \<and>
      viewChanges s' = viewChanges s @ [r] \<and>
      vc_reason r = ''Primary crashed during pre-prepare phase'' \<and>
      vc_oldView r = currentView s \<and> vc_newView r = currentView s + 1 \<and>
      r_view res = currentView s + 1"
proof -
  let ?s = "s\<lparr>blockHeight := blockHeight s + 1\<rparr>"
  let ?p = "primaryIndex s"
  let ?err = "Error ''Primary crashed during pre-prepare phase''"
  have p: "primaryIndex ?s = ?p" by (simp add: primaryIndex_def)
  have gp: "getPrimary ?s = Some (validators s ! ?p)"
    using assms(1) by (simp add: getPrimary_def primaryIndex_def)
  obtain k t where e: "exhibitsByzantineFailure cfg ?p ?s = (k, t)"
    by (cases "exhibitsByzantineFailure cfg ?p ?s")
  have k: "k = Some Crash"
    using exhibits_crash [of ?s ?p cfg] assms(3,4,5) e by simp
  from exhibits_cases [OF e] have q: "quiet ?s t" "byzantineEvents t = byzantineEvents s"
    by simp_all
  have bt: "map ballots (validators t) = map ballots (validators s)"
    using ballots_exhibits [of cfg ?p ?s] e by simp
  have idx: "index (validators t ! ?p) = index (validators s ! ?p)"
  proof -
    have "map static (validators t) = map static (validators s)"
      using q(1) by (simp add: quiet_def steady_def)
    moreover have "?p < length (validators s)" using assms(1) by (rule primaryIndex_less)
    ultimately have "static (validators t ! ?p) = static (validators s ! ?p)"
      by (metis length_map nth_map)
    then show ?thesis by (simp add: static_def)
  qed
  define s1 where "s1 = recordByzantineEvent ?p ''pre-prepare'' Crash t"
  have pre: "runPrePreparePhase cfg ?s = (Inl ?err, s1)"
    using gp p e k by (simp add: runPrePreparePhase_def s1_def)
  then have ph: "runPhases cfg ?s = (Inl ?err, s1)" by (simp add: runPhases_def)
  define u where "u = console_error (''PBFT consensus failed: '' @ message ?err) s1"
  have u: "\<not> viewChangeInProgress u" "validators u \<noteq> []"
    "map ballots (validators u) = map ballots (validators s)"
    "consensusPhases u = consensusPhases s" "networkMessages u = networkMessages s"
    "sleepCalls u = sleepCalls s" "now u = now s" "viewChanges u = viewChanges s"
    "currentView u = currentView s"
    using q(1) bt assms(1,2) steady_length [OF quiet_steady [OF q(1)]]
    by (auto simp: u_def s1_def console_error_def recordByzantineEvent_def quiet_def steady_def)
  have ev: "byzantineEvents u = byzantineEvents s @
      [\<lparr>be_timestamp = now t, be_validator = address (validators t ! ?p),
        be_validatorIndex = index (validators t ! ?p), be_blockHeight = blockHeight t,
        be_view = currentView t, be_phase = ''pre-prepare'', be_failureType = Crash\<rparr>]"
    using q(2) by (simp add: u_def s1_def events_recordByzantineEvent)
  from initiateViewChange_summary [OF u(1,2) refl, of cfg "message ?err"] obtain s2 rec where
    v: "initiateViewChange cfg (message ?err) u = (Inr (Some (currentView u + 1)), s2)"
       "map ballots (validators s2) = map ballots (validators u)"
       "currentView s2 = currentView u + 1"
       "byzantineEvents s2 = byzantineEvents u" "networkMessages s2 = networkMessages u"
       "consensusPhases s2 = consensusPhases u" "sleepCalls s2 = sleepCalls u + 1"
       "now s2 = now u + VIEW_CHANGE_TIMEOUT cfg + latency cfg (sleepCalls u)"
       "viewChanges s2 = viewChanges u @ [rec]" "vc_oldView rec = currentView u"
       "vc_newView rec = currentView u + 1" "vc_reason rec = message ?err"
    by blast
  have "s2 = snd (if viewChangeInProgress s
                  then (Inr None, console_error (''PBFT consensus failed: '' @ message ?err) s1)
                  else initiateViewChange cfg (message ?err)
                         (console_error (''PBFT consensus failed: '' @ message ?err) s1))"
    using assms(2) v(1) by (simp only: u_def if_False snd_conv)
  from runConsensus_failed [OF assms(1) ph this, of txHash receipt]
  show ?thesis using v u ev idx
    by (simp add: failureResult_def plain_defs)
qed

theorem primary_crash_aborts_round_witness:
  "\<exists>res s'. runConsensus (defaults (\<lambda>_. 0) (\<lambda>_. 0)) ''tx'' ()
                (worldOf [Some Crash, None, None, None]) = (Inr res, s') \<and>
      r_error res = Some ''Primary crashed during pre-prepare phase'' \<and> r_view res = 1 \<and>
      map blocksProposed (validators s') = [0, 0, 0, 0] \<and> consensusPhases s' = [] \<and>
      length (byzantineEvents s') = 1 \<and> length (viewChanges s') = 1"
proof -
  let ?C = "defaults (\<lambda>_. 0) (\<lambda>_. 0)"
  let ?W = "worldOf [Some Crash, None, None, None]"
  have h: "validators ?W \<noteq> []" "\<not> viewChangeInProgress ?W"
    "isByzantine (validators ?W ! primaryIndex ?W)"
    "byzantineType (validators ?W ! primaryIndex ?W) = Some Crash"
    "random ?C (randomCalls ?W) < BYZANTINE_FAILURE_PROBABILITY ?C"
    by (simp_all add: run_defs)
  have w: "map ballots (validators ?W) = [(0, 0, 0, 0, 0), (0, 0, 0, 0, 0), (0, 0, 0, 0, 0), (0, 0, 0, 0, 0)]"
    "consensusPhases ?W = []" "byzantineEvents ?W = []" "viewChanges ?W = []" "currentView ?W = 0"
    by (simp_all add: run_defs ballots_def)
  from primary_crash_aborts_round [OF h, of "''tx''" "()"] obtain res s' e r where
    a: "runConsensus ?C ''tx'' () ?W = (Inr res, s')"
      "r_error res = Some ''Primary crashed during pre-prepare phase''"
      "map ballots (validators s') = map ballots (validators ?W)"
      "consensusPhases s' = consensusPhases ?W" "byzantineEvents s' = byzantineEvents ?W @ [e]"
      "viewChanges s' = viewChanges ?W @ [r]" "r_view res = currentView ?W + 1"
    by blast
  have "map blocksProposed (validators s') = map fst (map ballots (validators s'))"
    by (simp add: ballots_def comp_def)
  then have "map blocksProposed (validators s') = [0, 0, 0, 0]"
    unfolding a(3) w(1) by simp
  then show ?thesis using a w by simp
qed

text \<open>
  C4. A view change that completes returns the old view plus one, leaves the world in that
  view and records \<open>newView = oldView + 1\<close> with the address of the validator at position
  \<open>newView mod N\<close>; no round and no sequence of rounds lowers the view, and every view
  change recorded during a run goes up by one; and \<open>getPrimary\<close> is the validator at
  position \<open>currentView mod N\<close> (there is none when the registry is empty).
\<close>

theorem view_moves_forward:
  "(\<forall>v s'. initiateViewChange cfg reason s = (Inr (Some v), s') \<longrightarrow>
      v = currentView s + 1 \<and> currentView s' = currentView s + 1 \<and>
      (\<exists>r. viewChanges s' = viewChanges s @ [r] \<and> vc_oldView r = currentView s \<and>
           vc_newView r = currentView s + 1 \<and>
           vc_newPrimary r = address (validators s ! (currentView s' mod length (validators s)))))
   \<and> currentView s \<le> currentView (snd (runConsensus cfg txHash receipt s))
   \<and> currentView s \<le> currentView (snd (runRounds cfg txs s))
   \<and> (\<forall>r\<in>set (drop (length (viewChanges s)) (viewChanges (snd (runRounds cfg txs s)))).
         vc_newView r = vc_oldView r + 1)
   \<and> getPrimary s =
       (if validators s = [] then None
        else Some (validators s ! (currentView s mod length (validators s))))"
proof (intro conjI allI impI)
  fix v s'
  assume a: "initiateViewChange cfg reason s = (Inr (Some v), s')"
  from initiateViewChange_Some [OF a] have pre: "\<not> viewChangeInProgress s" "validators s \<noteq> []"
    by simp_all
  from initiateViewChange_summary [OF pre refl, of cfg reason] obtain t r where
    s: "initiateViewChange cfg reason s = (Inr (Some (currentView s + 1)), t)"
       "currentView t = currentView s + 1" "viewChanges t = viewChanges s @ [r]"
       "vc_oldView r = currentView s" "vc_newView r = currentView s + 1"
       "vc_newPrimary r = address (validators s ! ((currentView s + 1) mod length (validators s)))"
    by blast
  from a s(1) have eq: "v = currentView s + 1" "s' = t" by simp_all
  show "v = currentView s + 1" by (rule eq(1))
  show "currentView s' = currentView s + 1" using s(2) eq(2) by simp
  show "\<exists>r. viewChanges s' = viewChanges s @ [r] \<and> vc_oldView r = currentView s \<and>
           vc_newView r = currentView s + 1 \<and>
           vc_newPrimary r = address (validators s ! (currentView s' mod length (validators s)))"
    using s eq(2) by auto
next
  show "currentView s \<le> currentView (snd (runConsensus cfg txHash receipt s))"
    using runConsensus_evolves [of s cfg txHash receipt] by (simp add: evolves_def)
  show "currentView s \<le> currentView (snd (runRounds cfg txs s))"
    using runRounds_evolves [of s cfg txs] by (simp add: evolves_def)
  show "\<forall>r\<in>set (drop (length (viewChanges s)) (viewChanges (snd (runRounds cfg txs s)))).
         vc_newView r = vc_oldView r + 1"
    using runRounds_evolves [of s cfg txs] by (auto simp: evolves_def)
  show "getPrimary s =
       (if validators s = [] then None
        else Some (validators s ! (currentView s mod length (validators s))))"
    by (simp add: getPrimary_def primaryIndex_def)
qed

theorem view_moves_forward_witness:
  "fst (initiateViewChange (defaults (\<lambda>_. 0) (\<lambda>_. 0)) ''stalled''
          (worldOf [None, Some Crash, None, None])) = Inr (Some 1) \<and>
   currentView (snd (initiateViewChange (defaults (\<lambda>_. 0) (\<lambda>_. 0)) ''stalled''
          (worldOf [None, Some Crash, None, None]))) = 1 \<and>
   length (viewChanges (snd (runRounds (defaults (\<lambda>_. 0) (\<lambda>_. 0)) [(''tx'', ())]
          (worldOf [None, Some Crash, None, None])))) = 1 \<and>
   list_all (\<lambda>r. vc_newView r = vc_oldView r + 1)
     (viewChanges (snd (runRounds (defaults (\<lambda>_. 0) (\<lambda>_. 0)) [(''tx'', ())]
          (worldOf [None, Some Crash, None, None]))))"
proof -
  let ?C = "defaults (\<lambda>_. 0) (\<lambda>_. 0)"
  let ?W = "worldOf [None, Some Crash, None, None]"
  have h: "fst (initiateViewChange ?C ''stalled'' ?W) = Inr (Some 1)"
    by (simp add: run_defs)
  then have h': "initiateViewChange ?C ''stalled'' ?W =
      (Inr (Some 1), snd (initiateViewChange ?C ''stalled'' ?W))"
    by (simp add: prod_eq_iff)
  have w: "currentView ?W = 0" "viewChanges ?W = []" by (simp_all add: run_defs)
  have n: "length (viewChanges (snd (runRounds ?C [(''tx'', ())] ?W))) = 1"
    by (simp add: run_defs)
  note t = view_moves_forward [of ?C "''stalled''" ?W "''tx''" "()" "[(''tx'', ())]"]
  from t [THEN conjunct1, rule_format, OF h']
  have "currentView (snd (initiateViewChange ?C ''stalled'' ?W)) = 1" by (simp add: w)
  moreover from t [THEN conjunct2, THEN conjunct2, THEN conjunct2, THEN conjunct1]
  have "\<forall>r\<in>set (viewChanges (snd (runRounds ?C [(''tx'', ())] ?W))). vc_newView r = vc_oldView r + 1"
    by (simp add: w)
  ultimately show ?thesis using h n by (simp add: list_all_iff)
qed

text \<open>
  C5. The validators that crash in a phase are the crash events the phase appends. When
  more than \<open>N - (2f + 1)\<close> validators crash in the prepare phase, the prepare phase throws;
  the same holds for the commit phase; and a round that succeeded saw at most
  \<open>N - (2f + 1)\<close> crashes in its prepare phase and at most that many in its commit phase.
\<close>

theorem excess_crashes_block_agreement:
  "(int (length (validators s)) - (2 * f s + 1)
      < int (crashes (drop (length (byzantineEvents s))
                        (byzantineEvents (snd (snd (prepareLoop cfg s)))))) \<longrightarrow>
      (\<exists>e. fst (runPreparePhase cfg s) = Inl e))
   \<and> (int (length (validators s)) - (2 * f s + 1)
      < int (crashes (drop (length (byzantineEvents s))
                        (byzantineEvents (snd (snd (commitLoop cfg s)))))) \<longrightarrow>
      (\<exists>e. fst (runCommitPhase cfg s) = Inl e))
   \<and> (\<forall>res s'. runConsensus cfg txHash receipt s = (Inr res, s') \<and> success res \<longrightarrow>
        int (crashes (filter (\<lambda>e. be_phase e = ''prepare'')
               (drop (length (byzantineEvents s)) (byzantineEvents s'))))
          \<le> int (length (validators s)) - (2 * f s + 1) \<and>
        int (crashes (filter (\<lambda>e. be_phase e = ''commit'')
               (drop (length (byzantineEvents s)) (byzantineEvents s'))))
          \<le> int (length (validators s)) - (2 * f s + 1))"
proof (intro conjI impI allI)
  assume a: "int (length (validators s)) - (2 * f s + 1)
      < int (crashes (drop (length (byzantineEvents s))
                        (byzantineEvents (snd (snd (prepareLoop cfg s))))))"
  obtain c b s1 where l: "prepareLoop cfg s = (c, b, s1)" by (cases "prepareLoop cfg s")
  from prepareLoop_summary [OF l] obtain new where
    n: "byzantineEvents s1 = byzantineEvents s @ new"
       "c + crashes new = length (validators s) - (if validators s = [] then 0 else 1)"
    by blast
  have "int c < 2 * f s + 1" using a n l by (auto split: if_splits)
  then show "\<exists>e. fst (runPreparePhase cfg s) = Inl e"
    by (simp add: runPreparePhase_eq [OF l])
next
  assume a: "int (length (validators s)) - (2 * f s + 1)
      < int (crashes (drop (length (byzantineEvents s))
                        (byzantineEvents (snd (snd (commitLoop cfg s))))))"
  obtain c b s1 where l: "commitLoop cfg s = (c, b, s1)" by (cases "commitLoop cfg s")
  from commitLoop_summary [OF l] obtain new where
    n: "byzantineEvents s1 = byzantineEvents s @ new" "c + crashes new = length (validators s)"
    by blast
  have "int c < 2 * f s + 1" using a n l by auto
  then show "\<exists>e. fst (runCommitPhase cfg s) = Inl e"
    by (simp add: runCommitPhase_eq [OF l])
next
  fix res s'
  assume a: "runConsensus cfg txHash receipt s = (Inr res, s') \<and> success res"
  let ?s = "s\<lparr>blockHeight := blockHeight s + 1\<rparr>"
  have ne: "validators s \<noteq> []"
    using a runConsensus_Inr [of cfg txHash receipt s res s'] by simp
  then have ne': "validators ?s \<noteq> []" by simp
  obtain r s1 where ph: "runPhases cfg ?s = (r, s1)" by (cases "runPhases cfg ?s")
  have "\<exists>pt. r = Inr pt"
  proof (cases r)
    case (Inl err)
    from runConsensus_failed [OF ne ph [unfolded Inl] refl, of txHash receipt] a
    show ?thesis by (auto simp: failureResult_def)
  qed simp
  then obtain pt where r: "r = Inr pt" by blast
  from runPhases_ok_events [OF ph [unfolded r] ne'] obtain n1 n2 n3 c2 c3 where
    e: "byzantineEvents s1 = byzantineEvents s @ n1 @ n2 @ n3"
       "\<forall>e\<in>set n1. be_phase e = ''pre-prepare''" "\<forall>e\<in>set n2. be_phase e = ''prepare''"
       "\<forall>e\<in>set n3. be_phase e = ''commit''"
       "c2 + crashes n2 = length (validators s) - 1" "c3 + crashes n3 = length (validators s)"
       "\<not> int c2 < 2 * f s + 1" "\<not> int c3 < 2 * f s + 1"
    by auto
  have s': "byzantineEvents s' = byzantineEvents s @ n1 @ n2 @ n3"
    using a runConsensus_success [OF ne ph [unfolded r], of txHash receipt] e(1) by auto
  have "drop (length (byzantineEvents s)) (byzantineEvents s') = n1 @ n2 @ n3"
    using s' by simp
  then show "int (crashes (filter (\<lambda>e. be_phase e = ''prepare'')
               (drop (length (byzantineEvents s)) (byzantineEvents s'))))
          \<le> int (length (validators s)) - (2 * f s + 1)"
    and "int (crashes (filter (\<lambda>e. be_phase e = ''commit'')
               (drop (length (byzantineEvents s)) (byzantineEvents s'))))
          \<le> int (length (validators s)) - (2 * f s + 1)"
    using filter_phase [OF e(2,3,4)] e(5,6,7,8) by simp_all
qed

theorem excess_crashes_block_agreement_witness:
  "int (length (validators (worldOf [None, Some Crash, Some Crash, None]))) -
     (2 * f (worldOf [None, Some Crash, Some Crash, None]) + 1)
     < int (crashes (drop (length (byzantineEvents (worldOf [None, Some Crash, Some Crash, None])))
              (byzantineEvents (snd (snd (prepareLoop (defaults (\<lambda>_. 0) (\<lambda>_. 0))
                  (worldOf [None, Some Crash, Some Crash, None]))))))) \<and>
   (\<exists>e. fst (runPreparePhase (defaults (\<lambda>_. 0) (\<lambda>_. 0))
            (worldOf [None, Some Crash, Some Crash, None])) = Inl e) \<and>
   (\<exists>e. fst (runCommitPhase (defaults (\<lambda>_. 0) (\<lambda>_. 0))
            (worldOf [None, Some Crash, Some Crash, None])) = Inl e) \<and>
   (\<exists>res s'. runConsensus (defaults (\<lambda>_. 1 / 2) (\<lambda>_. 0)) ''tx'' ()
                (worldOf [None, Some Crash, Some Crash, None]) = (Inr res, s') \<and> success res \<and>
      int (crashes (filter (\<lambda>e. be_phase e = ''prepare'')
             (drop (length (byzantineEvents (worldOf [None, Some Crash, Some Crash, None])))
                (byzantineEvents s')))) \<le> 1)"
proof -
  let ?C = "defaults (\<lambda>_. 0) (\<lambda>_. 0)"
  let ?D = "defaults (\<lambda>_. 1 / 2) (\<lambda>_. 0)"
  let ?W = "worldOf [None, Some Crash, Some Crash, None]"
  have w: "int (length (validators ?W)) - (2 * f ?W + 1) = 1" "length (byzantineEvents ?W) = 0"
    by (simp_all add: run_defs)
  have p: "crashes (byzantineEvents (snd (snd (prepareLoop ?C ?W)))) = 2"
    by (simp add: run_defs crashes_def)
  have c: "crashes (byzantineEvents (snd (snd (commitLoop ?C ?W)))) = 2"
    by (simp add: run_defs crashes_def)
  have h1: "int (length (validators ?W)) - (2 * f ?W + 1)
     < int (crashes (drop (length (byzantineEvents ?W))
              (byzantineEvents (snd (snd (prepareLoop ?C ?W))))))"
    unfolding w by (simp add: p)
  have h2: "int (length (validators ?W)) - (2 * f ?W + 1)
     < int (crashes (drop (length (byzantineEvents ?W))
              (byzantineEvents (snd (snd (commitLoop ?C ?W))))))"
    unfolding w by (simp add: c)
  obtain res where r: "fst (runConsensus ?D ''tx'' () ?W) = Inr res" "success res"
    by (simp add: run_defs)
  then have h3: "runConsensus ?D ''tx'' () ?W = (Inr res, snd (runConsensus ?D ''tx'' () ?W)) \<and> success res"
    by (simp add: prod_eq_iff)
  note t1 = excess_crashes_block_agreement [of ?W ?C "''tx''" "()"]
  note t2 = excess_crashes_block_agreement [of ?W ?D "''tx''" "()"]
  from t1 [THEN conjunct1, rule_format, OF h1]
  have a: "\<exists>e. fst (runPreparePhase ?C ?W) = Inl e" .
  from t1 [THEN conjunct2, THEN conjunct1, rule_format, OF h2]
  have b: "\<exists>e. fst (runCommitPhase ?C ?W) = Inl e" .
  from t2 [THEN conjunct2, THEN conjunct2, rule_format, OF h3, THEN conjunct1]
  have "int (crashes (filter (\<lambda>e. be_phase e = ''prepare'')
             (drop (length (byzantineEvents ?W))
                (byzantineEvents (snd (runConsensus ?D ''tx'' () ?W)))))) \<le> 1"
    unfolding w(1) .
  with h3 have d: "\<exists>res s'. runConsensus ?D ''tx'' () ?W = (Inr res, s') \<and> success res \<and>
      int (crashes (filter (\<lambda>e. be_phase e = ''prepare'')
             (drop (length (byzantineEvents ?W)) (byzantineEvents s')))) \<le> 1"
    by blast
  show ?thesis using h1 a b d by blast
qed

text \<open>
  C6 (amended). When the failure probability is \<open>0\<close> and the registry holds at least two
  validators, with \<open>f\<close> as the constructor computes it, every round of a run is committed,
  and the total time a round reports is the sum of the three durations its phases
  measured: the three configured phase times plus whatever the three \<open>sleep\<close> calls of the
  round took beyond the time asked for.
\<close>

theorem no_faults_every_round_commits:
  assumes "BYZANTINE_FAILURE_PROBABILITY cfg = 0" and "random_ok cfg"
    and "2 \<le> length (validators s)" and "f s = (int (length (validators s)) - 1) div 3"
  shows "\<exists>rs. fst (runRounds cfg txs s) = Inr rs \<and> length rs = length txs \<and>
     (\<forall>j<length txs. success (rs ! j) \<and>
        r_totalTime (rs ! j) =
          Some (PRE_PREPARE_PHASE_TIME cfg + PREPARE_PHASE_TIME cfg + COMMIT_PHASE_TIME cfg
                + latency cfg (sleepCalls s + 3 * j) + latency cfg (sleepCalls s + 3 * j + 1)
                + latency cfg (sleepCalls s + 3 * j + 2)))"
  using assms(3,4)
proof (induction txs arbitrary: s)
  case Nil
  show ?case by simp
next
  case (Cons tx txs)
  obtain txHash receipt where tx: "tx = (txHash, receipt)" by (cases tx)
  have nf: "no_faults cfg" using assms(1,2) by (rule no_faults_zero)
  from runConsensus_no_faults [OF nf Cons.prems, of txHash receipt] obtain res s1 where
    r: "runConsensus cfg txHash receipt s = (Inr res, s1)" "success res"
       "r_totalTime res =
          Some (PRE_PREPARE_PHASE_TIME cfg + PREPARE_PHASE_TIME cfg + COMMIT_PHASE_TIME cfg
                + latency cfg (sleepCalls s) + latency cfg (sleepCalls s + 1)
                + latency cfg (sleepCalls s + 2))"
       "length (validators s1) = length (validators s)" "f s1 = f s"
       "sleepCalls s1 = sleepCalls s + 3"
    by blast
  have "2 \<le> length (validators s1)" "f s1 = (int (length (validators s1)) - 1) div 3"
    using Cons.prems r(4,5) by simp_all
  from Cons.IH [OF this] obtain rs where
    rs: "fst (runRounds cfg txs s1) = Inr rs" "length rs = length txs"
        "\<forall>j<length txs. success (rs ! j) \<and>
           r_totalTime (rs ! j) =
             Some (PRE_PREPARE_PHASE_TIME cfg + PREPARE_PHASE_TIME cfg + COMMIT_PHASE_TIME cfg
                   + latency cfg (sleepCalls s1 + 3 * j) + latency cfg (sleepCalls s1 + 3 * j + 1)
                   + latency cfg (sleepCalls s1 + 3 * j + 2))"
    by blast
  have run: "fst (runRounds cfg (tx # txs) s) = Inr (res # rs)"
    using r(1) rs(1) tx by (cases "runRounds cfg txs s1") (auto split: sum.splits)
  have "\<forall>j<length (tx # txs). success ((res # rs) ! j) \<and>
        r_totalTime ((res # rs) ! j) =
          Some (PRE_PREPARE_PHASE_TIME cfg + PREPARE_PHASE_TIME cfg + COMMIT_PHASE_TIME cfg
                + latency cfg (sleepCalls s + 3 * j) + latency cfg (sleepCalls s + 3 * j + 1)
                + latency cfg (sleepCalls s + 3 * j + 2))"
  proof (intro allI impI)
    fix j
    assume j: "j < length (tx # txs)"
    show "success ((res # rs) ! j) \<and>
        r_totalTime ((res # rs) ! j) =
          Some (PRE_PREPARE_PHASE_TIME cfg + PREPARE_PHASE_TIME cfg + COMMIT_PHASE_TIME cfg
                + latency cfg (sleepCalls s + 3 * j) + latency cfg (sleepCalls s + 3 * j + 1)
                + latency cfg (sleepCalls s + 3 * j + 2))"
    proof (cases j)
      case 0
      then show ?thesis using r(2,3) by simp
    next
      case (Suc i)
      then have "i < length txs" using j by simp
      with rs(3) show ?thesis by (simp add: Suc r(6) add.commute add.left_commute)
    qed
  qed
  with run rs(2) show ?case by auto
qed

theorem no_faults_every_round_commits_witness:
  "\<exists>rs. fst (runRounds ((defaults (\<lambda>_. 1 / 2) (\<lambda>_. 0))\<lparr>BYZANTINE_FAILURE_PROBABILITY := 0\<rparr>)
             [(''tx1'', ()), (''tx2'', ())] (worldOf [None, Some Crash, None, None])) = Inr rs \<and>
     length rs = 2 \<and> success (rs ! 0) \<and> r_totalTime (rs ! 0) = Some 800 \<and>
     success (rs ! 1) \<and> r_totalTime (rs ! 1) = Some 800"
proof -
  let ?C = "(defaults (\<lambda>_. 1 / 2) (\<lambda>_. 0))\<lparr>BYZANTINE_FAILURE_PROBABILITY := 0\<rparr>"
  let ?W = "worldOf [None, Some Crash, None, None]"
  have h: "BYZANTINE_FAILURE_PROBABILITY ?C = 0" "random_ok ?C" "2 \<le> length (validators ?W)"
    "f ?W = (int (length (validators ?W)) - 1) div 3"
    by (simp_all add: random_ok_def run_defs)
  have c: "PRE_PREPARE_PHASE_TIME ?C + PREPARE_PHASE_TIME ?C + COMMIT_PHASE_TIME ?C = 800"
    "\<And>k. latency ?C k = 0"
    by (simp_all add: defaults_def)
  from no_faults_every_round_commits [OF h, of "[(''tx1'', ()), (''tx2'', ())]"]
  obtain rs where rs: "fst (runRounds ?C [(''tx1'', ()), (''tx2'', ())] ?W) = Inr rs"
    "length rs = 2"
    "\<forall>j<2. success (rs ! j) \<and> r_totalTime (rs ! j) = Some 800"
    unfolding c by auto
  from rs(3) have "success (rs ! 0) \<and> r_totalTime (rs ! 0) = Some 800"
    and "success (rs ! 1) \<and> r_totalTime (rs ! 1) = Some 800"
    by simp_all
  with rs(1,2) show ?thesis by blast
qed

text \<open>
  C6, as stated, fails twice. The phases measure their durations with the clock: when each
  \<open>sleep\<close> takes one millisecond more than asked for, the committed round of a registry of
  four with phase times \<open>200\<close>, \<open>300\<close>, \<open>300\<close> reports \<open>803\<close>. And the only validator of a
  registry of one is the primary, which the prepare phase skips: its round fails with
  \<open>Insufficient prepare messages: 0/1\<close> although no fault can occur.
\<close>

theorem no_faults_exact_time_counterexample:
  "BYZANTINE_FAILURE_PROBABILITY ((defaults (\<lambda>_. 1 / 2) (\<lambda>_. 1))\<lparr>BYZANTINE_FAILURE_PROBABILITY := 0\<rparr>) = 0 \<and>
   random_ok ((defaults (\<lambda>_. 1 / 2) (\<lambda>_. 1))\<lparr>BYZANTINE_FAILURE_PROBABILITY := 0\<rparr>) \<and>
   fst (runConsensus ((defaults (\<lambda>_. 1 / 2) (\<lambda>_. 1))\<lparr>BYZANTINE_FAILURE_PROBABILITY := 0\<rparr>) ''tx'' ()
          (worldOf [None, Some Crash, None, None])) =
     Inr \<lparr>success = True, r_blockHeight = 1, r_view = 0, r_primary = Some ''0x0'',
          r_phaseTimings = Some \<lparr>prePrepare = 201, prepare = 301, commit = 301\<rparr>,
          r_totalTime = Some 803, r_txHash = Some ''tx'', r_error = None, r_timestamp = 803\<rparr> \<and>
   fst (runConsensus ((defaults (\<lambda>_. 1 / 2) (\<lambda>_. 0))\<lparr>BYZANTINE_FAILURE_PROBABILITY := 0\<rparr>) ''tx'' ()
          (worldOf [None])) =
     Inr \<lparr>success = False, r_blockHeight = 1, r_view = 1, r_primary = None,
          r_phaseTimings = None, r_totalTime = None, r_txHash = None,
          r_error = Some ''Insufficient prepare messages: 0/1'', r_timestamp = 2500\<rparr>"
  by (simp add: random_ok_def run_defs)

text \<open>
  C7. The claim asks for one event per triggered fault, the view change included. The
  three phases record one; the view change does not. Let every call of \<open>Math.random\<close>
  return \<open>0\<close>: the constructor, given four accounts, makes validator \<open>0\<close> Byzantine of kind
  crash, and every draw triggers a fault. In the first round the primary, validator \<open>0\<close>,
  crashes in the pre-prepare phase and again in the view change that follows: its
  failure counter is \<open>2\<close>, and one event, of the pre-prepare phase, has been recorded. A view
  change on its own raises the counter to \<open>1\<close> and records nothing.
\<close>

theorem view_change_fault_leaves_no_event:
  "map (\<lambda>v. (isByzantine v, byzantineType v, failures v))
     (validators (the (new_PBFTConsensus (defaults (\<lambda>_. 0) (\<lambda>_. 0))
        [''0xa'', ''0xb'', ''0xc'', ''0xd''] (module_start 0))))
     = [(True, Some Crash, 0), (False, None, 0), (False, None, 0), (False, None, 0)] \<and>
   failures (validators (snd (runConsensus (defaults (\<lambda>_. 0) (\<lambda>_. 0)) ''tx'' ()
      (the (new_PBFTConsensus (defaults (\<lambda>_. 0) (\<lambda>_. 0))
         [''0xa'', ''0xb'', ''0xc'', ''0xd''] (module_start 0))))) ! 0) = 2 \<and>
   map be_phase (byzantineEvents (snd (runConsensus (defaults (\<lambda>_. 0) (\<lambda>_. 0)) ''tx'' ()
      (the (new_PBFTConsensus (defaults (\<lambda>_. 0) (\<lambda>_. 0))
         [''0xa'', ''0xb'', ''0xc'', ''0xd''] (module_start 0)))))) = [''pre-prepare''] \<and>
   failures (validators (snd (initiateViewChange (defaults (\<lambda>_. 0) (\<lambda>_. 0)) ''stalled''
      (the (new_PBFTConsensus (defaults (\<lambda>_. 0) (\<lambda>_. 0))
         [''0xa'', ''0xb'', ''0xc'', ''0xd''] (module_start 0))))) ! 0) = 1 \<and>
   byzantineEvents (snd (initiateViewChange (defaults (\<lambda>_. 0) (\<lambda>_. 0)) ''stalled''
      (the (new_PBFTConsensus (defaults (\<lambda>_. 0) (\<lambda>_. 0))
         [''0xa'', ''0xb'', ''0xc'', ''0xd''] (module_start 0))))) = []"
  by (simp add: new_PBFTConsensus_def setupValidators_def drawByzantineIndices.simps
      new_PBFTValidator_def BYZANTINE_FAILURE_TYPES_def run_defs)

text \<open>
  C8. When fewer than \<open>2f + 1\<close> validators acknowledge a view change, the coordinator
  writes one warning to the error output and completes the view change all the same: it
  returns the new view, the view stays incremented, one record with message count
  (number of acknowledgers) \<open>\<times>\<close> \<open>N\<close> is appended to \<open>viewChanges\<close>, the in-progress flag is
  cleared, and it has slept once, so the loop over the validators ran once.
\<close>

theorem view_change_proceeds_without_quorum:
  assumes "\<not> viewChangeInProgress s" and "validators s \<noteq> []"
    and "cnt = fst (viewChangeLoop cfg (s\<lparr>viewChangeInProgress := True, currentView := currentView s + 1\<rparr>))"
    and "int cnt < 2 * f s + 1"
  shows "\<exists>s' r. initiateViewChange cfg reason s = (Inr (Some (currentView s + 1)), s') \<and>
      currentView s' = currentView s + 1 \<and> \<not> viewChangeInProgress s' \<and>
      viewChanges s' = viewChanges s @ [r] \<and>
      vc_oldView r = currentView s \<and> vc_newView r = currentView s + 1 \<and> vc_reason r = reason \<and>
      vc_messageCount r = cnt * length (validators s) \<and>
      stderr s' = stderr s @
        [''Insufficient view change messages: '' @ decimal cnt @ ''/'' @ numeral_text (2 * f s + 1)] \<and>
      sleepCalls s' = sleepCalls s + 1"
proof -
  from initiateViewChange_summary [OF assms(1,2,3), of reason] obtain s' r where
    "initiateViewChange cfg reason s = (Inr (Some (currentView s + 1)), s')"
    "currentView s' = currentView s + 1" "\<not> viewChangeInProgress s'"
    "viewChanges s' = viewChanges s @ [r]"
    "vc_oldView r = currentView s" "vc_newView r = currentView s + 1" "vc_reason r = reason"
    "vc_messageCount r = cnt * length (validators s)"
    "stderr s' = stderr s @
        (if int cnt < 2 * f s + 1
         then [''Insufficient view change messages: '' @ decimal cnt @ ''/'' @ numeral_text (2 * f s + 1)]
         else [])"
    "sleepCalls s' = sleepCalls s + 1"
    by blast
  then show ?thesis using assms(4) by auto
qed

theorem view_change_proceeds_without_quorum_witness:
  "\<exists>s' r. initiateViewChange (defaults (\<lambda>_. 0) (\<lambda>_. 0)) ''stalled''
             (worldOf [None, Some Crash, Some Crash, None]) = (Inr (Some 1), s') \<and>
      currentView s' = 1 \<and> \<not> viewChangeInProgress s' \<and> viewChanges s' = [r] \<and>
      vc_messageCount r = 8 \<and> stderr s' = [''Insufficient view change messages: 2/3'']"
proof -
  let ?C = "defaults (\<lambda>_. 0) (\<lambda>_. 0)"
  let ?W = "worldOf [None, Some Crash, Some Crash, None]"
  have h1: "\<not> viewChangeInProgress ?W" and h2: "validators ?W \<noteq> []"
    by (simp_all add: run_defs)
  have h3: "2 = fst (viewChangeLoop ?C (?W\<lparr>viewChangeInProgress := True, currentView := currentView ?W + 1\<rparr>))"
    by (simp add: run_defs)
  have w: "f ?W = 1" "currentView ?W = 0" "viewChanges ?W = []" "stderr ?W = []"
    "length (validators ?W) = 4" "decimal 2 = ''2''" "numeral_text 3 = ''3''"
    by (simp_all add: run_defs)
  have h4: "int 2 < 2 * f ?W + 1" by (simp add: w)
  from view_change_proceeds_without_quorum [OF h1 h2 h3 h4, of "''stalled''"]
  show ?thesis by (auto simp: w)
qed

text \<open>
  C9. A call of \<open>exhibitsByzantineFailure\<close> returns nothing or the validator's own
  \<open>byzantineType\<close>, and for a validator that is not Byzantine it returns nothing and leaves
  the world as it is. Over any run the registry keeps its length, every validator keeps
  its \<open>isByzantine\<close> flag and its \<open>byzantineType\<close>, and a validator that is not Byzantine
  keeps its failure counter; every event recorded during the run carries the kind of the
  Byzantine validator whose index and address it names. In the registry the constructor
  built, a validator that is not Byzantine has no kind, and its failure counter is \<open>0\<close>
  after any run.
\<close>

theorem fault_kind_fixed_at_construction:
  "(fst (exhibitsByzantineFailure cfg i s) = None \<or>
      isByzantine (validators s ! i) \<and>
      fst (exhibitsByzantineFailure cfg i s) = byzantineType (validators s ! i))
   \<and> (\<not> isByzantine (validators s ! i) \<longrightarrow> exhibitsByzantineFailure cfg i s = (None, s))
   \<and> length (validators (snd (runRounds cfg txs s))) = length (validators s)
   \<and> (\<forall>j<length (validators s).
        isByzantine (validators (snd (runRounds cfg txs s)) ! j) = isByzantine (validators s ! j) \<and>
        byzantineType (validators (snd (runRounds cfg txs s)) ! j) = byzantineType (validators s ! j) \<and>
        (\<not> isByzantine (validators s ! j) \<longrightarrow>
           failures (validators (snd (runRounds cfg txs s)) ! j) = failures (validators s ! j)))
   \<and> (\<forall>e\<in>set (drop (length (byzantineEvents s)) (byzantineEvents (snd (runRounds cfg txs s)))).
        \<exists>v\<in>set (validators s). isByzantine v \<and> byzantineType v = Some (be_failureType e) \<and>
           index v = be_validatorIndex e \<and> address v = be_validator e)
   \<and> (\<forall>accounts s0. new_PBFTConsensus cfg accounts s0 = Some s \<longrightarrow>
        (\<forall>j<length (validators s). \<not> isByzantine (validators s ! j) \<longrightarrow>
           byzantineType (validators s ! j) = None \<and>
           failures (validators (snd (runRounds cfg txs s)) ! j) = 0))"
proof -
  let ?s' = "snd (runRounds cfg txs s)"
  have ev: "evolves s ?s'" by (rule runRounds_evolves)
  have 1: "fst (exhibitsByzantineFailure cfg i s) = None \<or>
      isByzantine (validators s ! i) \<and>
      fst (exhibitsByzantineFailure cfg i s) = byzantineType (validators s ! i)"
    using exhibits_cases [of cfg i s] by (cases "exhibitsByzantineFailure cfg i s") auto
  have 2: "\<not> isByzantine (validators s ! i) \<longrightarrow> exhibitsByzantineFailure cfg i s = (None, s)"
    by (simp add: exhibits_honest)
  have 3: "length (validators ?s') = length (validators s)"
    using ev by (auto simp: evolves_def dest: map_eq_imp_length_eq)
  have 4: "\<forall>j<length (validators s).
        isByzantine (validators ?s' ! j) = isByzantine (validators s ! j) \<and>
        byzantineType (validators ?s' ! j) = byzantineType (validators s ! j) \<and>
        (\<not> isByzantine (validators s ! j) \<longrightarrow>
           failures (validators ?s' ! j) = failures (validators s ! j))"
    using evolves_validators [OF ev] by blast
  have 5: "\<forall>e\<in>set (drop (length (byzantineEvents s)) (byzantineEvents ?s')).
        \<exists>v\<in>set (validators s). isByzantine v \<and> byzantineType v = Some (be_failureType e) \<and>
           index v = be_validatorIndex e \<and> address v = be_validator e"
  proof -
    from ev obtain new where
      n: "byzantineEvents ?s' = byzantineEvents s @ new" "\<forall>e\<in>set new. attributed s e"
      unfolding evolves_def by blast
    then show ?thesis by (auto dest: attributed_validator)
  qed
  have 6: "\<forall>accounts s0. new_PBFTConsensus cfg accounts s0 = Some s \<longrightarrow>
        (\<forall>j<length (validators s). \<not> isByzantine (validators s ! j) \<longrightarrow>
           byzantineType (validators s ! j) = None \<and> failures (validators ?s' ! j) = 0)"
  proof (intro allI impI)
    fix accounts s0 j
    assume c: "new_PBFTConsensus cfg accounts s0 = Some s"
      and j: "j < length (validators s)" and h: "\<not> isByzantine (validators s ! j)"
    have "validators s ! j \<in> set (validators s)" using j by simp
    with new_PBFTConsensus_fresh [OF c] h have
      "failures (validators s ! j) = 0" "byzantineType (validators s ! j) = None"
      by blast+
    then show "byzantineType (validators s ! j) = None \<and> failures (validators ?s' ! j) = 0"
      using 4 j h by simp
  qed
  from 1 2 3 4 5 6 show ?thesis by blast
qed

theorem fault_kind_fixed_at_construction_witness:
  "exhibitsByzantineFailure (defaults (\<lambda>_. 0) (\<lambda>_. 0)) 0 (worldOf [None, Some Crash, None, None])
     = (None, worldOf [None, Some Crash, None, None]) \<and>
   failures (validators (snd (runRounds (defaults (\<lambda>_. 0) (\<lambda>_. 0)) [(''tx'', ())]
      (worldOf [None, Some Crash, None, None]))) ! 0) = 0 \<and>
   (\<exists>v. v \<in> set (validators (worldOf [None, Some Crash, None, None])) \<and>
      isByzantine v \<and> byzantineType v = Some Crash \<and> index v = 1 \<and> address v = ''0x1'') \<and>
   (\<exists>s. new_PBFTConsensus (defaults (\<lambda>k. if k = 0 then 1 / 4 else 0) (\<lambda>_. 0))
          [''0xa'', ''0xb'', ''0xc'', ''0xd''] (module_start 0) = Some s \<and>
        \<not> isByzantine (validators s ! 0) \<and>
        failures (validators (snd (runRounds (defaults (\<lambda>k. if k = 0 then 1 / 4 else 0) (\<lambda>_. 0))
          [(''tx'', ())] s)) ! 0) = 0)"
proof -
  let ?C = "defaults (\<lambda>_. 0) (\<lambda>_. 0)"
  let ?D = "defaults (\<lambda>k. if k = 0 then 1 / 4 else 0) (\<lambda>_. 0)"
  let ?W = "worldOf [None, Some Crash, None, None]"
  let ?T = "[(''tx'', ())]"
  let ?e = "\<lparr>be_timestamp = 200, be_validator = ''0x1'', be_validatorIndex = 1,
             be_blockHeight = 1, be_view = 0, be_phase = ''prepare'', be_failureType = Crash\<rparr>"
  have w: "\<not> isByzantine (validators ?W ! 0)" "0 < length (validators ?W)"
    "failures (validators ?W ! 0) = 0" "length (byzantineEvents ?W) = 0"
    by (simp_all add: run_defs)
  have ev: "byzantineEvents (snd (runRounds ?C ?T ?W)) = [?e]"
    by (simp add: run_defs)
  note t = fault_kind_fixed_at_construction [of ?C 0 ?W ?T]
  from t [THEN conjunct2, THEN conjunct1, rule_format, OF w(1)]
  have a: "exhibitsByzantineFailure ?C 0 ?W = (None, ?W)" .
  from t [THEN conjunct2, THEN conjunct2, THEN conjunct2, THEN conjunct1, rule_format, OF w(2)] w(1,3)
  have b: "failures (validators (snd (runRounds ?C ?T ?W)) ! 0) = 0" by simp
  have "?e \<in> set (drop (length (byzantineEvents ?W)) (byzantineEvents (snd (runRounds ?C ?T ?W))))"
    unfolding ev w(4) by simp
  from t [THEN conjunct2, THEN conjunct2, THEN conjunct2, THEN conjunct2, THEN conjunct1,
      rule_format, OF this]
  have c: "\<exists>v. v \<in> set (validators ?W) \<and>
      isByzantine v \<and> byzantineType v = Some Crash \<and> index v = 1 \<and> address v = ''0x1''"
    by (simp add: Bex_def)
  obtain s where s: "new_PBFTConsensus ?D [''0xa'', ''0xb'', ''0xc'', ''0xd''] (module_start 0) = Some s"
    "0 < length (validators s)" "\<not> isByzantine (validators s ! 0)"
    by (simp add: new_PBFTConsensus_def setupValidators_def drawByzantineIndices.simps
        new_PBFTValidator_def BYZANTINE_FAILURE_TYPES_def run_defs)
  note u = fault_kind_fixed_at_construction [of ?D 0 s ?T]
  from u [THEN conjunct2, THEN conjunct2, THEN conjunct2, THEN conjunct2, THEN conjunct2,
      rule_format, OF s(1) s(2) s(3)]
  have "failures (validators (snd (runRounds ?D ?T s)) ! 0) = 0" by simp
  with s have d: "\<exists>s. new_PBFTConsensus ?D [''0xa'', ''0xb'', ''0xc'', ''0xd''] (module_start 0) = Some s \<and>
        \<not> isByzantine (validators s ! 0) \<and>
        failures (validators (snd (runRounds ?D ?T s)) ! 0) = 0"
    by blast
  from a b c d show ?thesis by blast
qed

text \<open>
  C10. In a world where no view change is in progress (the constructor leaves such a
  world, and every round keeps it so), a failed round has run the view change before it
  built its result: the result's view is the view the round started in plus one, it is
  the view of the record the view change appended, and the result holds no primary, no
  phase timings, no total time and no transaction hash. A successful round reports the
  view it started in and holds all of them.
\<close>

theorem failed_round_reports_new_view:
  assumes "runConsensus cfg txHash receipt s = (Inr res, s')" and "\<not> viewChangeInProgress s"
  shows "(\<not> success res \<longrightarrow>
            r_view res = currentView s + 1 \<and> currentView s' = currentView s + 1 \<and>
            r_blockHeight res = blockHeight s + 1 \<and>
            (\<exists>msg r. r_error res = Some msg \<and> viewChanges s' = viewChanges s @ [r] \<and>
               vc_oldView r = currentView s \<and> vc_newView r = r_view res \<and> vc_reason r = msg) \<and>
            r_primary res = None \<and> r_phaseTimings res = None \<and> r_totalTime res = None \<and>
            r_txHash res = None) \<and>
         (success res \<longrightarrow>
            r_view res = currentView s \<and> currentView s' = currentView s \<and>
            r_primary res \<noteq> None \<and> r_phaseTimings res \<noteq> None \<and> r_totalTime res \<noteq> None \<and>
            r_txHash res = Some txHash \<and> r_error res = None \<and> viewChanges s' = viewChanges s)"
proof -
  let ?s = "s\<lparr>blockHeight := blockHeight s + 1\<rparr>"
  have ne: "validators s \<noteq> []" using assms(1) by (rule runConsensus_Inr)
  then have ne': "validators ?s \<noteq> []" by simp
  obtain r s1 where ph: "runPhases cfg ?s = (r, s1)" by (cases "runPhases cfg ?s")
  from runPhases_summary [OF ph ne'] have st: "steady ?s s1" by blast
  then have flds: "currentView s1 = currentView s" "blockHeight s1 = blockHeight s + 1"
    "viewChanges s1 = viewChanges s" "viewChangeInProgress s1 = viewChangeInProgress s"
    by (simp_all add: steady_def)
  have len: "length (validators s1) = length (validators s)"
    using steady_length [OF st] by simp
  show ?thesis
  proof (cases r)
    case (Inr pt)
    have "validators s1 \<noteq> []" using len ne by auto
    then have "getPrimary s1 \<noteq> None" by (simp add: getPrimary_def primaryIndex_def)
    then show ?thesis
      using assms(1) runConsensus_success [OF ne ph [unfolded Inr], of txHash receipt] flds
      by (auto simp: successResult_def plain_defs)
  next
    case (Inl err)
    define t where "t = console_error (''PBFT consensus failed: '' @ message err) s1"
    have t: "\<not> viewChangeInProgress t" "validators t \<noteq> []" "currentView t = currentView s"
      "blockHeight t = blockHeight s + 1" "viewChanges t = viewChanges s"
      using flds assms(2) len ne by (auto simp: t_def console_error_def)
    from initiateViewChange_summary [OF t(1,2) refl, of cfg "message err"] obtain s2 rec where
      v: "initiateViewChange cfg (message err) t = (Inr (Some (currentView t + 1)), s2)"
         "blockHeight s2 = blockHeight t" "currentView s2 = currentView t + 1"
         "viewChanges s2 = viewChanges t @ [rec]" "vc_oldView rec = currentView t"
         "vc_newView rec = currentView t + 1" "vc_reason rec = message err"
      by blast
    have "s2 = snd (if viewChangeInProgress s
                    then (Inr None, console_error (''PBFT consensus failed: '' @ message err) s1)
                    else initiateViewChange cfg (message err)
                           (console_error (''PBFT consensus failed: '' @ message err) s1))"
      using assms(2) v(1) by (simp add: t_def)
    from runConsensus_failed [OF ne ph [unfolded Inl] this, of txHash receipt]
    show ?thesis using assms(1) v t
      by (auto simp: failureResult_def plain_defs)
  qed
qed

theorem failed_round_reports_new_view_witness:
  "\<exists>res s'. runConsensus (defaults (\<lambda>_. 0) (\<lambda>_. 0)) ''tx'' ()
                (worldOf [None, Some Crash, None, None]) = (Inr res, s') \<and>
     \<not> viewChangeInProgress (worldOf [None, Some Crash, None, None]) \<and>
     \<not> success res \<and> r_view res = 1 \<and> currentView s' = 1 \<and> r_primary res = None \<and>
     r_phaseTimings res = None \<and> r_totalTime res = None"
proof -
  let ?C = "defaults (\<lambda>_. 0) (\<lambda>_. 0)"
  let ?W = "worldOf [None, Some Crash, None, None]"
  obtain res where r: "fst (runConsensus ?C ''tx'' () ?W) = Inr res" "\<not> success res"
    by (simp add: run_defs)
  then have h1: "runConsensus ?C ''tx'' () ?W = (Inr res, snd (runConsensus ?C ''tx'' () ?W))"
    by (simp add: prod_eq_iff)
  have h2: "\<not> viewChangeInProgress ?W" and w: "currentView ?W = 0"
    by (simp_all add: run_defs)
  from failed_round_reports_new_view [OF h1 h2, THEN conjunct1, rule_format, OF r(2)] h1 h2 r(2)
  show ?thesis by (auto simp: w)
qed

end
